theory Spec2Isabelle
  imports Complex_Main "HOL-Library.Sublist" "HOL-Library.Multiset"
begin

section \<open>Python strings\<close>

text \<open>
  A Python \<^verbatim>\<open>str\<close> is a sequence of Unicode code points; a code point is a natural number
  and \<open>ustr\<close> embeds an ASCII literal. \<open>isspace\<close> is the whitespace table that
  \<^verbatim>\<open>str.split()\<close> and \<^verbatim>\<open>str.strip()\<close> use.
\<close>

type_synonym uchar = nat
type_synonym ustring = "uchar list"

definition ustr :: "string \<Rightarrow> ustring" where
  "ustr s = map of_char s"

definition isspace :: "uchar \<Rightarrow> bool" where
  "isspace c \<longleftrightarrow>
     (9 \<le> c \<and> c \<le> 13) \<or> (28 \<le> c \<and> c \<le> 32) \<or> c = 133 \<or> c = 160 \<or> c = 5760 \<or>
     (8192 \<le> c \<and> c \<le> 8202) \<or> c = 8232 \<or> c = 8233 \<or> c = 8239 \<or> c = 8287 \<or> c = 12288"

definition py_lstrip :: "ustring \<Rightarrow> ustring" where
  "py_lstrip s = dropWhile isspace s"

definition py_strip :: "ustring \<Rightarrow> ustring" where
  "py_strip s = rev (dropWhile isspace (rev (dropWhile isspace s)))"

definition py_strip_chars :: "ustring \<Rightarrow> ustring \<Rightarrow> ustring" where
  "py_strip_chars chars s =
     rev (dropWhile (\<lambda>c. c \<in> set chars) (rev (dropWhile (\<lambda>c. c \<in> set chars) s)))"

fun split_words :: "ustring \<Rightarrow> ustring \<Rightarrow> ustring list" where
  "split_words cur [] = (if cur = [] then [] else [cur])"
| "split_words cur (c # cs) =
     (if isspace c then (if cur = [] then split_words [] cs else cur # split_words [] cs)
      else split_words (cur @ [c]) cs)"

definition py_split :: "ustring \<Rightarrow> ustring list" where
  "py_split s = split_words [] s"

fun py_join :: "ustring \<Rightarrow> ustring list \<Rightarrow> ustring" where
  "py_join sep [] = []"
| "py_join sep [x] = x"
| "py_join sep (x # y # ys) = x @ sep @ py_join sep (y # ys)"

definition py_slice :: "'a list \<Rightarrow> int \<Rightarrow> int \<Rightarrow> 'a list" where
  "py_slice xs i j =
     (let n = int (length xs);
          a = (if i < 0 then max (n + i) 0 else min i n);
          b = (if j < 0 then max (n + j) 0 else min j n)
      in take (nat (b - a)) (drop (nat a) xs))"

fun replace_go :: "ustring \<Rightarrow> ustring \<Rightarrow> nat \<Rightarrow> ustring \<Rightarrow> ustring" where
  "replace_go old new k [] = []"
| "replace_go old new k (c # cs) =
     (if 0 < k then replace_go old new (k - 1) cs
      else if prefix old (c # cs) then new @ replace_go old new (length old - 1) cs
      else c # replace_go old new 0 cs)"

definition py_replace :: "ustring \<Rightarrow> ustring \<Rightarrow> ustring \<Rightarrow> ustring" where
  "py_replace old new s =
     (if old = [] then new @ concat (map (\<lambda>c. c # new) s) else replace_go old new 0 s)"

fun digits :: "nat \<Rightarrow> ustring" where
  "digits n = (if n < 10 then [48 + n] else digits (n div 10) @ [48 + n mod 10])"

declare digits.simps [simp del]

definition py_str_int :: "int \<Rightarrow> ustring" where
  "py_str_int i = (if i < 0 then 45 # digits (nat (- i)) else digits (nat i))"

fun py_contains :: "ustring \<Rightarrow> ustring \<Rightarrow> bool" where
  "py_contains sub [] = (sub = [])"
| "py_contains sub (c # cs) = (prefix sub (c # cs) \<or> py_contains sub cs)"

text \<open>
  \<^verbatim>\<open>str.lower\<close>, \<^verbatim>\<open>str.isdigit\<close> and \<^verbatim>\<open>str.isalnum\<close> read the Unicode character database;
  the functions take them as parameters. \<open>ascii_lower\<close> is \<^verbatim>\<open>str.lower\<close> on ASCII text, for
  concrete runs.
\<close>

definition ascii_lower :: "ustring \<Rightarrow> ustring" where
  "ascii_lower s = map (\<lambda>c. if 65 \<le> c \<and> c \<le> 90 then c + 32 else c) s"

definition ascii_isdigit :: "uchar \<Rightarrow> bool" where
  "ascii_isdigit c \<longleftrightarrow> 48 \<le> c \<and> c \<le> 57"

fun py_index :: "ustring \<Rightarrow> uchar \<Rightarrow> nat option" where
  "py_index [] c = None"
| "py_index (x # xs) c = (if x = c then Some 0 else map_option Suc (py_index xs c))"

definition py_rindex :: "ustring \<Rightarrow> uchar \<Rightarrow> nat option" where
  "py_rindex s c = map_option (\<lambda>i. length s - 1 - i) (py_index (rev s) c)"

definition ascii_isalnum :: "uchar \<Rightarrow> bool" where
  "ascii_isalnum c \<longleftrightarrow> (48 \<le> c \<and> c \<le> 57) \<or> (65 \<le> c \<and> c \<le> 90) \<or> (97 \<le> c \<and> c \<le> 122)"

section \<open>Exceptions\<close>

text \<open>
  The exception classes the pipeline raises itself, and \<open>External\<close> for an exception of an
  external library (the OpenAI client, pdfplumber), with its \<^verbatim>\<open>str(e)\<close>.
\<close>

datatype exn = ValueError | RuntimeError | KeyError | TypeError | JSONDecodeError | External ustring

section \<open>etl/pdf\_chunking.py\<close>

text \<open>
  \<^verbatim>\<open>make_chunk\<close> draws its id from \<^verbatim>\<open>uuid.uuid4()\<close>; the model takes the stream of
  uuids as a parameter, indexed by the number of draws made so far.
\<close>

record chunk_metadata =
  pdf_type :: ustring
  page_number :: int
  local_chunk_index :: int
  global_chunk_index :: int

record chunk =
  chunk_id :: ustring
  chunk_text :: ustring
  metadata :: chunk_metadata

definition make_chunk :: "ustring \<Rightarrow> ustring \<Rightarrow> chunk_metadata \<Rightarrow> chunk" where
  "make_chunk uuid txt md = \<lparr>chunk_id = uuid, chunk_text = py_strip txt, metadata = md\<rparr>"

text \<open>
  The \<^verbatim>\<open>while\<close> loop of \<^verbatim>\<open>chunk_page_text\<close>. Its parameters are Python integers, and
  nothing in the loop forces \<open>start\<close> to grow, so it is a partial function: \<open>None\<close>
  is a run that never returns.
\<close>

record chunk_args =
  words :: "ustring list"
  arg_pdf_type :: ustring
  arg_page_number :: int
  chunk_size_words :: int
  overlap_words :: int
  uuid4 :: "nat \<Rightarrow> ustring"

partial_function (option) chunk_loop ::
  "chunk_args \<Rightarrow> int \<Rightarrow> int \<Rightarrow> int \<Rightarrow> chunk list \<Rightarrow> chunk list option" where
  "chunk_loop a start local_index global_index chunks =
     (if start < int (length (words a)) then
        (let end = min (start + chunk_size_words a) (int (length (words a)));
             text_block = py_join (ustr '' '') (py_slice (words a) start end);
             md = \<lparr>pdf_type = arg_pdf_type a, page_number = arg_page_number a,
                   local_chunk_index = local_index, global_chunk_index = global_index\<rparr>;
             chunks' = chunks @ [make_chunk (uuid4 a (length chunks)) text_block md]
         in if end = int (length (words a)) then Some chunks'
            else chunk_loop a (max 0 (end - overlap_words a)) (local_index + 1)
                   (global_index + 1) chunks')
      else Some chunks)"

declare chunk_loop.simps [code]

definition chunk_page_text ::
  "(nat \<Rightarrow> ustring) \<Rightarrow> ustring \<Rightarrow> ustring \<Rightarrow> int \<Rightarrow> int \<Rightarrow> int \<Rightarrow> int \<Rightarrow> chunk list option" where
  "chunk_page_text uuids page_text pdf_ty page_no csw ow global_chunk_start_index =
     (let a = \<lparr>words = py_split page_text, arg_pdf_type = pdf_ty, arg_page_number = page_no,
                chunk_size_words = csw, overlap_words = ow, uuid4 = uuids\<rparr>
      in if words a = [] then Some []
         else chunk_loop a 0 0 global_chunk_start_index [])"

text \<open>Chunks whose local and global indices count up from the given values.\<close>

definition indexed_from :: "int \<Rightarrow> int \<Rightarrow> chunk list \<Rightarrow> bool" where
  "indexed_from li gi cs \<longleftrightarrow>
     map (local_chunk_index \<circ> metadata) cs = map (\<lambda>i. li + int i) [0..<length cs] \<and>
     map (global_chunk_index \<circ> metadata) cs = map (\<lambda>i. gi + int i) [0..<length cs]"

text \<open>Loop states from which the window never reaches the last word.\<close>

definition stuck :: "chunk_args \<Rightarrow> int \<Rightarrow> bool" where
  "stuck a start \<longleftrightarrow>
     0 \<le> start \<and> start < int (length (words a)) \<and>
     start + chunk_size_words a < int (length (words a)) \<and>
     chunk_size_words a \<le> overlap_words a"

text \<open>
  A pdfplumber page: \<^verbatim>\<open>extract_text()\<close> returns a string or \<^verbatim>\<open>None\<close>;
  \<^verbatim>\<open>extract_tables()\<close> returns a list of tables (rows of optional cell strings) or
  \<^verbatim>\<open>None\<close>, or raises.
\<close>

type_synonym table = "ustring option list list"

record page =
  extract_text :: "ustring option"
  extract_tables :: "exn + table list option"

definition clean_cell :: "ustring option \<Rightarrow> ustring" where
  "clean_cell cell =
     py_strip (py_replace [10] (ustr '' '') (case cell of None \<Rightarrow> [] | Some c \<Rightarrow> c))"

fun find_header :: "ustring list list \<Rightarrow> nat \<Rightarrow> nat option" where
  "find_header [] idx = None"
| "find_header (row # rows) idx =
     (if list_ex (\<lambda>cell. cell \<noteq> []) row then Some idx else find_header rows (idx + 1))"

definition md_line :: "ustring list \<Rightarrow> ustring" where
  "md_line row = ustr ''| '' @ py_join (ustr '' | '') row @ ustr '' |''"

definition table_to_markdown :: "table \<Rightarrow> ustring" where
  "table_to_markdown tbl =
     (if tbl = [] then []
      else
        let cleaned = map (map clean_cell) tbl;
            header_idx = (case find_header cleaned 0 of Some idx \<Rightarrow> idx | None \<Rightarrow> 0);
            max_cols = fold max (map length cleaned) 0;
            norm = (\<lambda>r. r @ replicate (max_cols - length r) []);
            header = norm (cleaned ! header_idx);
            body = map norm (drop (header_idx + 1) cleaned);
            lines = [md_line header, md_line (replicate (length header) (ustr ''---''))]
                      @ map md_line body
        in py_join [10] lines)"

fun enumerate_from :: "int \<Rightarrow> 'a list \<Rightarrow> (int \<times> 'a) list" where
  "enumerate_from i [] = []"
| "enumerate_from i (x # xs) = (i, x) # enumerate_from (i + 1) xs"

definition extract_page_content :: "page \<Rightarrow> int \<Rightarrow> bool \<Rightarrow> int \<Rightarrow> ustring" where
  "extract_page_content pg page_no include_tables max_text_chars =
     (let text0 = py_strip (case extract_text pg of None \<Rightarrow> [] | Some t \<Rightarrow> t);
          text1 = (if max_text_chars \<noteq> 0 \<and> max_text_chars < int (length text0)
                   then py_slice text0 0 max_text_chars else text0);
          tables_markdown =
            (if include_tables then
               let tables = (case extract_tables pg of
                               Inl e \<Rightarrow> [] | Inr None \<Rightarrow> [] | Inr (Some ts) \<Rightarrow> ts);
                   md_tables = concat (map (\<lambda>(t_idx, tbl).
                       let md = table_to_markdown tbl
                       in if py_strip md \<noteq> []
                          then [ustr ''### Table '' @ py_str_int t_idx @ ustr '' (page ''
                                  @ py_str_int page_no @ ustr '')'' @ [10] @ md]
                          else []) (enumerate_from 1 tables))
               in py_join [10, 10] md_tables
             else []);
          parts = (if text1 \<noteq> [] then [text1] else [])
                    @ (if tables_markdown \<noteq> [] then [tables_markdown] else [])
      in py_strip (py_join [10, 10] parts))"

fun chunk_pdf_pages ::
  "(uchar \<Rightarrow> bool) \<Rightarrow> (nat \<Rightarrow> ustring) \<Rightarrow> ustring \<Rightarrow> int \<Rightarrow> int \<Rightarrow> bool \<Rightarrow>
   page list \<Rightarrow> int \<Rightarrow> chunk list \<Rightarrow> int \<Rightarrow> chunk list option" where
  "chunk_pdf_pages isalnum uuids pdf_ty csw ow include_tables [] page_idx chunks g = Some chunks"
| "chunk_pdf_pages isalnum uuids pdf_ty csw ow include_tables (pg # rest) page_idx chunks g =
     (let page_text = extract_page_content pg page_idx include_tables 8000
      in if \<not> list_ex isalnum page_text
         then chunk_pdf_pages isalnum uuids pdf_ty csw ow include_tables rest (page_idx + 1) chunks g
         else (case chunk_page_text (\<lambda>k. uuids (length chunks + k)) page_text pdf_ty page_idx
                      csw ow g of
                 None \<Rightarrow> None
               | Some page_chunks \<Rightarrow>
                   chunk_pdf_pages isalnum uuids pdf_ty csw ow include_tables rest (page_idx + 1)
                     (chunks @ page_chunks) (g + int (length page_chunks))))"

definition chunk_pdf ::
  "(ustring \<Rightarrow> exn + page list) \<Rightarrow> (uchar \<Rightarrow> bool) \<Rightarrow> (nat \<Rightarrow> ustring) \<Rightarrow>
   ustring \<Rightarrow> ustring \<Rightarrow> int \<Rightarrow> int \<Rightarrow> bool \<Rightarrow> (exn + chunk list) option" where
  "chunk_pdf open_pdf isalnum uuids pdf_path pdf_ty csw ow include_tables =
     (case open_pdf pdf_path of
        Inl e \<Rightarrow> Some (Inl e)
      | Inr pages \<Rightarrow>
          map_option Inr (chunk_pdf_pages isalnum uuids pdf_ty csw ow include_tables pages 1 [] 0))"

text \<open>An integer list that counts up from \<open>g\<close>.\<close>

definition counts_from :: "int \<Rightarrow> int list \<Rightarrow> bool" where
  "counts_from g zs \<longleftrightarrow> zs = map (\<lambda>i. g + int i) [0..<length zs]"

text \<open>
  What one page contributes to the output of \<^verbatim>\<open>chunk_pdf\<close>: chunks of that page number,
  local indices from zero, and nothing at all when the page has no alphanumeric character.
\<close>

definition page_block ::
  "(uchar \<Rightarrow> bool) \<Rightarrow> bool \<Rightarrow> page \<Rightarrow> int \<Rightarrow> chunk list \<Rightarrow> bool" where
  "page_block isalnum include_tables pg page_no block \<longleftrightarrow>
     (\<forall>c \<in> set block. page_number (metadata c) = page_no) \<and>
     map (local_chunk_index \<circ> metadata) block = map int [0..<length block] \<and>
     (\<not> list_ex isalnum (extract_page_content pg page_no include_tables 8000) \<longrightarrow> block = [])"

section \<open>etl/llm\_client.py\<close>

text \<open>
  \<^verbatim>\<open>ask_llm\<close> calls the endpoint once per attempt. The endpoint is a parameter: the outcome
  of the \<open>i\<close>-th call made for a prompt, either the response text or the text
  \<^verbatim>\<open>str(e)\<close> of the exception raised. A run records the result, the arguments of
  \<^verbatim>\<open>time.sleep\<close> in order, and the number of calls made.
\<close>

record llm_run =
  outcome :: "exn + ustring"
  sleeps :: "int list"
  calls :: nat

definition transient :: "(ustring \<Rightarrow> ustring) \<Rightarrow> ustring \<Rightarrow> bool" where
  "transient lower err \<longleftrightarrow>
     py_contains (ustr ''429'') err \<or> py_contains (ustr ''503'') err \<or>
     py_contains (ustr ''rate limit'') (lower err) \<or>
     py_contains (ustr ''temporarily'') (lower err)"

fun ask_llm_loop ::
  "(ustring \<Rightarrow> ustring) \<Rightarrow> (nat \<Rightarrow> ustring + ustring) \<Rightarrow> nat list \<Rightarrow> int list \<Rightarrow> nat \<Rightarrow> llm_run" where
  "ask_llm_loop lower create [] slept made =
     \<lparr>outcome = Inl RuntimeError, sleeps = slept, calls = made\<rparr>"
| "ask_llm_loop lower create (attempt # rest) slept made =
     (case create made of
        Inr output_text \<Rightarrow> \<lparr>outcome = Inr output_text, sleeps = slept, calls = made + 1\<rparr>
      | Inl err \<Rightarrow>
          if transient lower err
          then ask_llm_loop lower create rest (slept @ [min (2 ^ attempt) 15]) (made + 1)
          else \<lparr>outcome = Inl (External err), sleeps = slept, calls = made + 1\<rparr>)"

definition ask_llm ::
  "(ustring \<Rightarrow> ustring) \<Rightarrow> (ustring \<Rightarrow> nat \<Rightarrow> ustring + ustring) \<Rightarrow> ustring \<Rightarrow> int \<Rightarrow> llm_run" where
  "ask_llm lower client prompt max_retries =
     ask_llm_loop lower (client prompt) [0..<nat max_retries] [] 0"

section \<open>etl/pdf\_extractor.py\<close>

text \<open>
  Parsed JSON. \<^verbatim>\<open>json.loads\<close> is a parameter: it returns a value or raises.
\<close>

datatype json =
  JNull | JBool bool | JInt int | JFloat ustring | JStr ustring
  | JArr "json list" | JObj "(ustring \<times> json) list"

definition safe_json_loads ::
  "(ustring \<Rightarrow> ustring) \<Rightarrow> (ustring \<Rightarrow> exn + json) \<Rightarrow> ustring \<Rightarrow> json" where
  "safe_json_loads lower loads raw =
     (let s0 = py_strip raw;
          s = (if prefix (ustr ''```'') s0 then
                 let s1 = py_strip_chars (ustr ''`'') s0
                 in if prefix (ustr ''json'') (lower s1) then py_lstrip (drop 4 s1) else s1
               else s0)
      in case loads s of
           Inr v \<Rightarrow> v
         | Inl e \<Rightarrow>
             (case py_index s 91 of
                None \<Rightarrow> JArr []
              | Some start \<Rightarrow>
                  (case py_rindex s 93 of
                     None \<Rightarrow> JArr []
                   | Some end \<Rightarrow>
                       (case loads (py_slice s (int start) (int end + 1)) of
                          Inr v \<Rightarrow> v
                        | Inl e' \<Rightarrow> JArr []))))"

record page_info =
  pi_page_number :: int
  pi_text :: ustring
  pi_tables_markdown :: ustring

text \<open>
  What the pipeline reads from outside: the character database, the LLM endpoint, the JSON
  parser, the file store, the text extraction of the classifier (pdfplumber with OCR
  fallback, which catches its own errors) and the prompt templates of
  \<^verbatim>\<open>etl/prompts.py\<close>.
\<close>

record world =
  str_lower :: "ustring \<Rightarrow> ustring"
  str_isdigit :: "uchar \<Rightarrow> bool"
  llm_client :: "ustring \<Rightarrow> nat \<Rightarrow> ustring + ustring"
  json_loads :: "ustring \<Rightarrow> exn + json"
  pdfplumber_open :: "ustring \<Rightarrow> exn + page list"
  extract_text_of :: "ustring \<Rightarrow> ustring"
  CONSTRUCTION_PROCESS_PROMPT :: ustring
  COSTING_EXTRACTION_PAGE_PROMPT :: ustring
  PROJECT_SCHEDULE_PROMPT :: ustring
  REGULATORY_RULES_PROMPT :: ustring
  PDF_CLASSIFICATION_PROMPT :: ustring

definition PROMPT_MAP :: "world \<Rightarrow> (ustring \<times> ustring) list" where
  "PROMPT_MAP w =
     [(ustr ''construction_process'', CONSTRUCTION_PROCESS_PROMPT w),
      (ustr ''construction_costing'', COSTING_EXTRACTION_PAGE_PROMPT w),
      (ustr ''project_schedule'', PROJECT_SCHEDULE_PROMPT w),
      (ustr ''ura_circular'', REGULATORY_RULES_PROMPT w)]"

definition extractor_page_content :: "page \<Rightarrow> int \<Rightarrow> page_info" where
  "extractor_page_content pg page_no =
     (let text0 = py_strip (case extract_text pg of None \<Rightarrow> [] | Some t \<Rightarrow> t);
          text1 = (if 6000 < length text0 then take 6000 text0 else text0);
          tables = (case extract_tables pg of
                      Inl e \<Rightarrow> [] | Inr None \<Rightarrow> [] | Inr (Some ts) \<Rightarrow> ts);
          md_tables = concat (map (\<lambda>(t_idx, tbl).
              let md = table_to_markdown tbl
              in if py_strip md \<noteq> []
                 then [ustr ''### Table '' @ py_str_int t_idx @ [10] @ md]
                 else []) (enumerate_from 1 tables))
      in \<lparr>pi_page_number = page_no, pi_text = text1,
          pi_tables_markdown = py_join [10, 10] md_tables\<rparr>)"

definition tag_page_number :: "int \<Rightarrow> json \<Rightarrow> json" where
  "tag_page_number page_no obj =
     (case obj of
        JObj kvs \<Rightarrow>
          (if ustr ''page_number'' \<in> set (map fst kvs) then JObj kvs
           else JObj (kvs @ [(ustr ''page_number'', JInt page_no)]))
      | _ \<Rightarrow> obj)"

definition build_prompt :: "ustring \<Rightarrow> ustring \<Rightarrow> page_info \<Rightarrow> ustring" where
  "build_prompt pdf_ty prompt_template pinfo =
     (if pdf_ty = ustr ''construction_costing'' then
        py_replace (ustr ''{{PAGE_TABLES}}'') (pi_tables_markdown pinfo)
          (py_replace (ustr ''{{PAGE_TEXT}}'') (pi_text pinfo)
            (py_replace (ustr ''{{PAGE_NUMBER}}'') (py_str_int (pi_page_number pinfo))
               prompt_template))
      else
        let content_blocks =
              [ustr ''Page number: '' @ py_str_int (pi_page_number pinfo)]
              @ (if pi_text pinfo \<noteq> [] then [ustr ''PAGE TEXT:'' @ [10] @ pi_text pinfo] else [])
              @ (if pi_tables_markdown pinfo \<noteq> []
                 then [ustr ''PAGE TABLES (markdown):'' @ [10] @ pi_tables_markdown pinfo] else []);
            page_block = py_join [10, 10] content_blocks
        in py_strip prompt_template @ [10, 10] @ page_block)"

definition process_page_with_llm ::
  "world \<Rightarrow> ustring \<Rightarrow> ustring \<Rightarrow> page_info \<Rightarrow> exn + (int \<times> json list)" where
  "process_page_with_llm w pdf_ty prompt_template pinfo =
     (let page_no = pi_page_number pinfo;
          prompt = build_prompt pdf_ty prompt_template pinfo
      in case outcome (ask_llm (str_lower w) (llm_client w) prompt 6) of
           Inl e \<Rightarrow> Inl e
         | Inr llm_raw \<Rightarrow>
             (case safe_json_loads (str_lower w) (json_loads w) llm_raw of
                JArr page_results \<Rightarrow>
                  if pdf_ty \<in> set [ustr ''construction_process'', ustr ''project_schedule'',
                                     ustr ''ura_circular'']
                  then Inr (page_no, map (tag_page_number page_no) page_results)
                  else Inr (page_no, page_results)
              | _ \<Rightarrow> Inr (page_no, [])))"

fun read_pages :: "world \<Rightarrow> ustring \<Rightarrow> page list \<Rightarrow> int \<Rightarrow> page_info list" where
  "read_pages w pdf_ty [] page_index = []"
| "read_pages w pdf_ty (pg # rest) page_index =
     (let pinfo = extractor_page_content pg page_index
      in if pi_text pinfo = [] \<and> pi_tables_markdown pinfo = []
         then read_pages w pdf_ty rest (page_index + 1)
         else if pdf_ty = ustr ''construction_costing'' \<and>
                 \<not> list_ex (str_isdigit w) (pi_text pinfo @ pi_tables_markdown pinfo)
         then read_pages w pdf_ty rest (page_index + 1)
         else pinfo # read_pages w pdf_ty rest (page_index + 1))"

type_synonym results_by_page = "(int \<times> json list) list"

definition dict_set :: "'k \<Rightarrow> 'v \<Rightarrow> ('k \<times> 'v) list \<Rightarrow> ('k \<times> 'v) list" where
  "dict_set k v d = (if k \<in> set (map fst d) then map (\<lambda>(k', v'). if k' = k then (k', v) else (k', v')) d
                     else d @ [(k, v)])"

definition dict_setdefault :: "'k \<Rightarrow> 'v \<Rightarrow> ('k \<times> 'v) list \<Rightarrow> ('k \<times> 'v) list" where
  "dict_setdefault k v d = (if k \<in> set (map fst d) then d else d @ [(k, v)])"

text \<open>
  The page pool. \<^verbatim>\<open>as_completed\<close> yields the submitted futures in the order they finish;
  the model takes that order as a parameter and folds the loop body over it.
\<close>

fun collect_futures ::
  "world \<Rightarrow> ustring \<Rightarrow> ustring \<Rightarrow> page_info list \<Rightarrow> results_by_page \<Rightarrow> results_by_page" where
  "collect_futures w pdf_ty prompt_template [] all_results_by_page = all_results_by_page"
| "collect_futures w pdf_ty prompt_template (pinfo # completed) all_results_by_page =
     collect_futures w pdf_ty prompt_template completed
       (case process_page_with_llm w pdf_ty prompt_template pinfo of
          Inr (pn, items) \<Rightarrow> dict_set pn items all_results_by_page
        | Inl e \<Rightarrow> dict_setdefault (pi_page_number pinfo) [] all_results_by_page)"

definition flatten_in_page_order :: "results_by_page \<Rightarrow> json list" where
  "flatten_in_page_order all_results_by_page =
     concat (map (\<lambda>pn. case map_of all_results_by_page pn of Some items \<Rightarrow> items | None \<Rightarrow> [])
                 (sort (map fst all_results_by_page)))"

fun basename :: "ustring \<Rightarrow> ustring" where
  "basename p = rev (takeWhile (\<lambda>c. c \<noteq> 47) (rev p))"

record pdf_result =
  filename :: ustring
  res_pdf_type :: ustring
  classifier_info :: json
  structured_data :: "json list"

definition classifier_pdf_type :: "world \<Rightarrow> json \<Rightarrow> exn + ustring" where
  "classifier_pdf_type w classifier =
     (case classifier of
        JObj kvs \<Rightarrow>
          (case map_of kvs (ustr ''pdf_type'') of
             None \<Rightarrow> Inl KeyError
           | Some (JStr t) \<Rightarrow> if t \<in> set (map fst (PROMPT_MAP w)) then Inr t else Inl ValueError
           | Some (JArr xs) \<Rightarrow> Inl TypeError
           | Some (JObj xs) \<Rightarrow> Inl TypeError
           | Some other \<Rightarrow> Inl ValueError)
      | _ \<Rightarrow> Inl TypeError)"

definition process_single_pdf ::
  "world \<Rightarrow> (page_info list \<Rightarrow> page_info list) \<Rightarrow> ustring \<Rightarrow> json \<Rightarrow> exn + pdf_result" where
  "process_single_pdf w as_completed pdf_path classifier =
     (case classifier_pdf_type w classifier of
        Inl e \<Rightarrow> Inl e
      | Inr pdf_ty \<Rightarrow>
          (case map_of (PROMPT_MAP w) pdf_ty of
             None \<Rightarrow> Inl ValueError
           | Some prompt_template \<Rightarrow>
               (case pdfplumber_open w pdf_path of
                  Inl e \<Rightarrow> Inl e
                | Inr pages \<Rightarrow>
                    let pages_to_process = read_pages w pdf_ty pages 1;
                        finish = (\<lambda>structured.
                          \<lparr>filename = basename pdf_path, res_pdf_type = pdf_ty,
                           classifier_info = classifier, structured_data = structured\<rparr>)
                    in if pages_to_process = [] then Inr (finish [])
                       else if length pages_to_process = 1 then
                         (case process_page_with_llm w pdf_ty prompt_template (hd pages_to_process) of
                            Inl e \<Rightarrow> Inl e
                          | Inr (page_no, items) \<Rightarrow>
                              Inr (finish (flatten_in_page_order (dict_set page_no items []))))
                       else
                         Inr (finish (flatten_in_page_order
                           (collect_futures w pdf_ty prompt_template
                              (as_completed pages_to_process) []))))))"

text \<open>The items a page contributes: its parsed list, or nothing when its LLM call raised.\<close>

definition page_items :: "world \<Rightarrow> ustring \<Rightarrow> ustring \<Rightarrow> page_info \<Rightarrow> json list" where
  "page_items w pdf_ty prompt_template pinfo =
     (case process_page_with_llm w pdf_ty prompt_template pinfo of
        Inr (pn, items) \<Rightarrow> items
      | Inl e \<Rightarrow> [])"

text \<open>
  The two steps of the permissive parser as the specification words them: the response with
  its code fence and leading language tag stripped, and the substring from the first
  opening bracket to the last closing bracket.
\<close>

definition cleaned_response :: "(ustring \<Rightarrow> ustring) \<Rightarrow> ustring \<Rightarrow> ustring" where
  "cleaned_response lower raw =
     (let s = py_strip raw
      in if prefix (ustr ''```'') s
         then (let body = py_strip_chars (ustr ''`'') s
               in if prefix (ustr ''json'') (lower body) then py_lstrip (drop 4 body) else body)
         else s)"

definition bracket_snippet :: "ustring \<Rightarrow> ustring option" where
  "bracket_snippet s =
     (if 91 \<in> set s \<and> 93 \<in> set s
      then Some (rev (dropWhile (\<lambda>c. c \<noteq> 93) (rev (dropWhile (\<lambda>c. c \<noteq> 91) s))))
      else None)"

section \<open>etl/pdf\_classifier.py\<close>

text \<open>
  \<^verbatim>\<open>classify_pdf\<close> asks the gateway for the verdict on the extracted text;
  \<^verbatim>\<open>detect_pdf_type\<close> cleans the raw response and parses it. An error of the gateway or of
  the parser leaves the function as it is.
\<close>

definition classify_pdf :: "world \<Rightarrow> ustring \<Rightarrow> exn + ustring" where
  "classify_pdf w pdf_path =
     (let content = extract_text_of w pdf_path;
          prompt = py_replace (ustr ''{{CONTENT}}'') content (PDF_CLASSIFICATION_PROMPT w)
      in outcome (ask_llm (str_lower w) (llm_client w) prompt 6))"

definition detect_pdf_type :: "world \<Rightarrow> ustring \<Rightarrow> exn + json" where
  "detect_pdf_type w pdf_path =
     (case classify_pdf w pdf_path of
        Inl e \<Rightarrow> Inl e
      | Inr raw_json \<Rightarrow>
          let cleaned0 = py_strip (py_strip_chars (ustr ''```'') (py_strip raw_json));
              cleaned = py_strip (py_replace (ustr ''json'') [] cleaned0)
          in json_loads w cleaned)"

section \<open>The multi-document run of etl/pdf\_extractor.py\<close>

text \<open>
  \<^verbatim>\<open>process_many_pdfs\<close> classifies every path in order, outside any \<^verbatim>\<open>try\<close>, and then
  extracts: one job inline, several jobs through the document pool, whose completion order
  is a parameter as for the page pool. A pool of zero workers is refused by the executor.
\<close>

fun classify_all :: "world \<Rightarrow> ustring list \<Rightarrow> exn + (ustring \<times> json) list" where
  "classify_all w [] = Inr []"
| "classify_all w (path # paths) =
     (case detect_pdf_type w path of
        Inl e \<Rightarrow> Inl e
      | Inr classifier \<Rightarrow>
          (case classify_all w paths of
             Inl e \<Rightarrow> Inl e
           | Inr jobs \<Rightarrow> Inr ((path, classifier) # jobs)))"




section \<open>Chunk persistence: pipelines/dlt\_pipeline.py and etl/pdf\_embedding.py\<close>

text \<open>
  A chunk as the persistence functions receive it: a dictionary whose keys may be missing and
  whose metadata may be something other than a dictionary. A run records the argument of
  every call of the embedding function and the arguments of \<^verbatim>\<open>collection.add\<close>, if it was
  called.
\<close>

datatype meta_value = MStr ustring | MInt int

datatype metadata_field = MetaDict "(ustring \<times> meta_value) list" | MetaOther

record raw_chunk =
  rc_id :: "ustring option"
  rc_text :: "ustring option"
  rc_metadata :: "metadata_field option"

record stored_chunk =
  sc_id :: ustring
  sc_text :: ustring
  sc_metadata :: "(ustring \<times> meta_value) list"

record 'v store_run =
  embed_calls :: "ustring list list"
  added :: "(ustring list \<times> 'v list \<times> ustring list \<times> metadata_field list) option"

fun clean_chunks :: "(nat \<Rightarrow> ustring) \<Rightarrow> ustring \<Rightarrow> raw_chunk list \<Rightarrow> nat \<Rightarrow> stored_chunk list" where
  "clean_chunks uuids document_id [] drawn = []"
| "clean_chunks uuids document_id (c # chunks) drawn =
     (let cid = (case rc_id c of None \<Rightarrow> uuids drawn | Some i \<Rightarrow> i);
          drawn' = (case rc_id c of None \<Rightarrow> drawn + 1 | Some i \<Rightarrow> drawn);
          md = (case rc_metadata c of Some (MetaDict d) \<Rightarrow> d | _ \<Rightarrow> []);
          md' = dict_set (ustr ''document_id'') (MStr document_id) md
      in case rc_text c of
           None \<Rightarrow> clean_chunks uuids document_id chunks drawn'
         | Some t \<Rightarrow>
             if py_strip t = [] then clean_chunks uuids document_id chunks drawn'
             else \<lparr>sc_id = cid, sc_text = t, sc_metadata = md'\<rparr>
                    # clean_chunks uuids document_id chunks drawn')"

definition store_chunks_in_chroma_with_doc_id ::
  "(nat \<Rightarrow> ustring) \<Rightarrow> (ustring list \<Rightarrow> 'v list) \<Rightarrow> raw_chunk list \<Rightarrow> ustring \<Rightarrow> 'v store_run" where
  "store_chunks_in_chroma_with_doc_id uuids embed_fn chunks document_id =
     (let cleaned = clean_chunks uuids document_id chunks 0
      in if cleaned = [] then \<lparr>embed_calls = [], added = None\<rparr>
         else
           let ids = map sc_id cleaned;
               texts = map sc_text cleaned;
               metadatas = map (\<lambda>c. MetaDict (sc_metadata c)) cleaned;
               vectors = embed_fn texts
           in \<lparr>embed_calls = [texts], added = Some (ids, vectors, texts, metadatas)\<rparr>)"

text \<open>
  \<^verbatim>\<open>store_chunks_in_chroma\<close>, which the pipeline does not call, embeds the texts in slices of
  \<^verbatim>\<open>batch_size\<close>.
\<close>

function batches :: "nat \<Rightarrow> 'a list \<Rightarrow> 'a list list" where
  "batches n xs = (if n = 0 \<or> xs = [] then [] else take n xs # batches n (drop n xs))"
  by pat_completeness auto
termination
  by (relation "measure (\<lambda>(n, xs). length xs)") auto

declare batches.simps [simp del]

definition store_chunks_in_chroma ::
  "(ustring list \<Rightarrow> 'v list) \<Rightarrow> raw_chunk list \<Rightarrow> int \<Rightarrow> exn + 'v store_run" where
  "store_chunks_in_chroma embed_fn chunks batch_size =
     (if chunks = [] then Inr \<lparr>embed_calls = [], added = None\<rparr>
      else if \<exists>c \<in> set chunks. rc_id c = None \<or> rc_text c = None then Inl KeyError
      else if batch_size = 0 then Inl ValueError
      else
        let ids = map (\<lambda>c. case rc_id c of Some i \<Rightarrow> i | None \<Rightarrow> []) chunks;
            texts = map (\<lambda>c. case rc_text c of Some t \<Rightarrow> t | None \<Rightarrow> []) chunks;
            metadatas = map (\<lambda>c. case rc_metadata c of Some m \<Rightarrow> m | None \<Rightarrow> MetaDict []) chunks;
            calls = (if batch_size < 0 then [] else batches (nat batch_size) texts)
        in if \<exists>b \<in> set calls. length (embed_fn b) \<noteq> length b then Inl ValueError
           else Inr \<lparr>embed_calls = calls,
                     added = Some (ids, concat (map embed_fn calls), texts, metadatas)\<rparr>)"

section \<open>A concrete run\<close>

text \<open>
  A world for concrete runs: the endpoint rejects every call with an authentication error
  (which is no transient error), \<^verbatim>\<open>one.pdf\<close> has one page and every other file two.
\<close>

definition example_world :: world where
  "example_world =
     \<lparr>str_lower = ascii_lower, str_isdigit = ascii_isdigit,
      llm_client = (\<lambda>prompt i. Inl (ustr ''Error code: 401 - invalid api key'')),
      json_loads = (\<lambda>s. Inl JSONDecodeError),
      pdfplumber_open = (\<lambda>path.
        if path = ustr ''one.pdf''
        then Inr [\<lparr>extract_text = Some (ustr ''Task A 5 days''), extract_tables = Inr None\<rparr>]
        else Inr [\<lparr>extract_text = Some (ustr ''Task A 5 days''), extract_tables = Inr None\<rparr>,
                  \<lparr>extract_text = Some (ustr ''Task B 7 days''), extract_tables = Inr None\<rparr>]),
      extract_text_of = (\<lambda>path. path),
      CONSTRUCTION_PROCESS_PROMPT = ustr ''Extract the process steps.'',
      COSTING_EXTRACTION_PAGE_PROMPT = ustr ''Extract the cost items of page {{PAGE_NUMBER}}.'',
      PROJECT_SCHEDULE_PROMPT = ustr ''Extract the tasks.'',
      REGULATORY_RULES_PROMPT = ustr ''Extract the rules.'',
      PDF_CLASSIFICATION_PROMPT = ustr ''Classify: {{CONTENT}}''\<rparr>"

definition schedule_classifier :: json where
  "schedule_classifier = JObj [(ustr ''pdf_type'', JStr (ustr ''project_schedule''))]"

text \<open>The same world with an endpoint that answers every call with a JSON object.\<close>

definition object_world :: world where
  \<open>object_world = example_world
     \<lparr>llm_client := (\<lambda>prompt i. Inr (ustr ''{"a": 1}'')),
      json_loads := (\<lambda>s. if s = ustr ''{"a": 1}'' then Inr (JObj [(ustr ''a'', JInt 1)])
                          else Inl JSONDecodeError)\<rparr>\<close>

text \<open>An endpoint whose verdict mentions json inside a field value, with the parser's answer
  on the two texts that occur.\<close>

definition tagged_world :: world where
  \<open>tagged_world = example_world
     \<lparr>llm_client := (\<lambda>prompt i. Inr (ustr ''{"pdf_type": "other", "reason": "json export"}'')),
      json_loads := (\<lambda>s.
         if s = ustr ''{"pdf_type": "other", "reason": "json export"}''
         then Inr (JObj [(ustr ''pdf_type'', JStr (ustr ''other'')),
                         (ustr ''reason'', JStr (ustr ''json export''))])
         else if s = ustr ''{"pdf_type": "other", "reason": " export"}''
         then Inr (JObj [(ustr ''pdf_type'', JStr (ustr ''other'')),
                         (ustr ''reason'', JStr (ustr '' export''))])
         else Inl JSONDecodeError)\<rparr>\<close>


text \<open>A page with blank text and one table of two empty cells, and what
  \<^verbatim>\<open>extract_page_content\<close> renders for it as page 1.\<close>

definition blank_table_page :: page where
  "blank_table_page =
     \<lparr>extract_text = Some (ustr ''  ''), extract_tables = Inr (Some [[[None, None]]])\<rparr>"

definition blank_table_rendered :: ustring where
  "blank_table_rendered =
     ustr ''### Table 1 (page 1)'' @ [10] @ ustr ''|  |  |'' @ [10] @ ustr ''| --- | --- |''"

text \<open>A chunk with an id and a text.\<close>

definition sample_chunk :: raw_chunk where
  "sample_chunk = \<lparr>rc_id = Some (ustr ''c1''), rc_text = Some (ustr ''some text''), rc_metadata = None\<rparr>"

section \<open>Properties of the chunker\<close>

lemma chunk_loop_last:
  assumes "start < int (length (words a))"
    and "int (length (words a)) \<le> start + chunk_size_words a"
  shows "chunk_loop a start li gi chunks =
     Some (chunks @ [make_chunk (uuid4 a (length chunks))
        (py_join (ustr '' '') (py_slice (words a) start (int (length (words a)))))
        \<lparr>pdf_type = arg_pdf_type a, page_number = arg_page_number a,
          local_chunk_index = li, global_chunk_index = gi\<rparr>])"
  using assms by (subst chunk_loop.simps) (simp add: Let_def min_def)

lemma chunk_loop_step:
  assumes "start < int (length (words a))"
    and "start + chunk_size_words a < int (length (words a))"
  shows "chunk_loop a start li gi chunks =
     chunk_loop a (max 0 (start + chunk_size_words a - overlap_words a)) (li + 1) (gi + 1)
       (chunks @ [make_chunk (uuid4 a (length chunks))
        (py_join (ustr '' '') (py_slice (words a) start (start + chunk_size_words a)))
        \<lparr>pdf_type = arg_pdf_type a, page_number = arg_page_number a,
          local_chunk_index = li, global_chunk_index = gi\<rparr>])"
  using assms by (subst chunk_loop.simps) (simp add: Let_def min_def)

lemma indexed_from_Cons:
  "indexed_from li gi (c # cs) \<longleftrightarrow>
     local_chunk_index (metadata c) = li \<and> global_chunk_index (metadata c) = gi \<and>
     indexed_from (li + 1) (gi + 1) cs"
proof -
  have "map (\<lambda>i. x + int i) [0..<Suc n] = x # map (\<lambda>i. x + 1 + int i) [0..<n]" for x n
    by (simp add: upt_conv_Cons map_Suc_upt [symmetric] del: upt_Suc) 
  then show ?thesis
    by (auto simp: indexed_from_def)
qed

lemma neg_div_step: "0 < (d::int) \<Longrightarrow> - (- x div d) = - (- (x - d) div d) + 1"
proof -
  assume d: "0 < d"
  have "- (x - d) = - x + d" by simp
  then have "- (x - d) div d = (- x + d) div d" by simp
  also have "\<dots> = - x div d + 1" using d div_add_self2 [of d "- x"] by simp
  finally show ?thesis by simp
qed

lemma neg_div_one: "0 < (x::int) \<Longrightarrow> x \<le> d \<Longrightarrow> - (- x div d) = 1"
proof -
  assume a: "0 < x" "x \<le> d"
  then have d: "0 < d" by simp
  have "(d - x) div d = 0" using a by simp
  moreover have "- (- x div d) = - (- (x - d) div d) + 1" using d by (rule neg_div_step)
  ultimately show ?thesis by simp
qed

lemma chunk_loop_windows:
  assumes "0 \<le> overlap_words a" and "overlap_words a < chunk_size_words a"
    and "0 \<le> start" and "start + overlap_words a < int (length (words a))"
  shows "\<exists>new. chunk_loop a start li gi chunks = Some (chunks @ new) \<and>
     int (length new) =
       - (- (int (length (words a)) - start - overlap_words a)
            div (chunk_size_words a - overlap_words a)) \<and>
     indexed_from li gi new"
  using assms(3,4)
proof (induction "nat (int (length (words a)) - start)" arbitrary: start li gi chunks
    rule: less_induct)
  case less
  define n where "n = int (length (words a))"
  define d where "d = chunk_size_words a - overlap_words a"
  have d: "0 < d" using assms(2) by (simp add: d_def)
  have lt: "start < n" using less.prems assms(1) by (simp add: n_def)
  show ?case
  proof (cases "n \<le> start + chunk_size_words a")
    case True
    define c where "c = make_chunk (uuid4 a (length chunks))
        (py_join (ustr '' '') (py_slice (words a) start (int (length (words a)))))
        \<lparr>pdf_type = arg_pdf_type a, page_number = arg_page_number a,
          local_chunk_index = li, global_chunk_index = gi\<rparr>"
    have run: "chunk_loop a start li gi chunks = Some (chunks @ [c])"
      unfolding c_def using lt True by (intro chunk_loop_last) (simp_all add: n_def)
    have "0 < n - start - overlap_words a" "n - start - overlap_words a \<le> d"
      using True less.prems by (simp_all add: n_def d_def)
    then have one: "- (- (n - start - overlap_words a) div d) = 1"
      by (rule neg_div_one)
    have idx: "indexed_from li gi [c]"
      by (simp add: indexed_from_Cons indexed_from_def c_def make_chunk_def)
    show ?thesis
      using run one idx unfolding n_def d_def by (intro exI [of _ "[c]"]) simp
  next
    case False
    define s where "s = start + chunk_size_words a - overlap_words a"
    define c where "c = make_chunk (uuid4 a (length chunks))
        (py_join (ustr '' '') (py_slice (words a) start (start + chunk_size_words a)))
        \<lparr>pdf_type = arg_pdf_type a, page_number = arg_page_number a,
          local_chunk_index = li, global_chunk_index = gi\<rparr>"
    have s: "max 0 s = s" "0 \<le> s" "s + overlap_words a < n" "start < s"
      using False less.prems assms by (simp_all add: n_def s_def)
    have step: "chunk_loop a start li gi chunks = chunk_loop a s (li + 1) (gi + 1) (chunks @ [c])"
      unfolding c_def using chunk_loop_step [of start a li gi chunks] lt False s(1)
      by (simp add: n_def s_def)
    have "nat (n - s) < nat (n - start)" using s lt by simp
    from less.hyps [OF this [unfolded n_def] s(2) s(3) [unfolded n_def], of "li + 1" "gi + 1" "chunks @ [c]"]
    obtain new where new: "chunk_loop a s (li + 1) (gi + 1) (chunks @ [c]) = Some ((chunks @ [c]) @ new)"
      "int (length new) = - (- (n - s - overlap_words a) div d)"
      "indexed_from (li + 1) (gi + 1) new"
      unfolding n_def d_def by blast
    have eq: "n - start - overlap_words a - d = n - s - overlap_words a"
      by (simp add: s_def d_def)
    have cnt: "- (- (n - start - overlap_words a) div d) =
        - (- (n - s - overlap_words a) div d) + 1"
      unfolding eq [symmetric] using d by (rule neg_div_step)
    have idx: "indexed_from li gi (c # new)"
      using new(3) by (simp add: indexed_from_Cons c_def make_chunk_def)
    show ?thesis
      using step new(1,2) cnt idx unfolding n_def d_def
      by (intro exI [of _ "c # new"]) simp
  qed
qed

lemma chunk_page_text_general:
  assumes "py_split page_text \<noteq> []" and "0 \<le> ow" and "ow < csw"
  shows "\<exists>chunks. chunk_page_text uuids page_text ty pn csw ow g = Some chunks \<and>
     int (length chunks) =
       (if csw < int (length (py_split page_text))
        then \<lceil>real_of_int (int (length (py_split page_text)) - ow) / real_of_int (csw - ow)\<rceil>
        else 1) \<and>
     indexed_from 0 g chunks"
proof -
  define a where "a = \<lparr>words = py_split page_text, arg_pdf_type = ty, arg_page_number = pn,
                chunk_size_words = csw, overlap_words = ow, uuid4 = uuids\<rparr>"
  have sel: "words a = py_split page_text" "chunk_size_words a = csw" "overlap_words a = ow"
    by (simp_all add: a_def)
  have cpt: "chunk_page_text uuids page_text ty pn csw ow g = chunk_loop a 0 0 g []"
    using assms(1) by (simp add: chunk_page_text_def a_def Let_def)
  define n where "n = int (length (py_split page_text))"
  have n: "0 < n" using assms(1) by (simp add: n_def)
  show ?thesis
  proof (cases "csw < n")
    case True
    have "\<exists>new. chunk_loop a 0 0 g [] = Some ([] @ new) \<and>
       int (length new) = - (- (int (length (words a)) - 0 - overlap_words a)
          div (chunk_size_words a - overlap_words a)) \<and>
       indexed_from 0 g new"
      using assms(2,3) True by (intro chunk_loop_windows) (simp_all add: sel n_def)
    then obtain new where new: "chunk_loop a 0 0 g [] = Some new"
      "int (length new) = - (- (n - ow) div (csw - ow))" "indexed_from 0 g new"
      by (auto simp: sel n_def)
    have "\<lceil>real_of_int (n - ow) / real_of_int (csw - ow)\<rceil> = - (- (n - ow) div (csw - ow))"
      by (rule ceiling_divide_eq_div)
    then show ?thesis using new True cpt by (auto simp: n_def)
  next
    case False
    have "chunk_loop a 0 0 g [] = Some ([] @ [make_chunk (uuid4 a (length ([]::chunk list)))
        (py_join (ustr '' '') (py_slice (words a) 0 (int (length (words a)))))
        \<lparr>pdf_type = arg_pdf_type a, page_number = arg_page_number a,
          local_chunk_index = 0, global_chunk_index = g\<rparr>])"
      using n False by (intro chunk_loop_last) (simp_all add: sel n_def)
    then show ?thesis using False cpt
      by (simp add: n_def indexed_from_Cons indexed_from_def make_chunk_def)
  qed
qed

lemma stuck_next:
  "stuck a start \<Longrightarrow> stuck a (max 0 (start + chunk_size_words a - overlap_words a))"
  by (auto simp: stuck_def max_def)

lemma chunk_loop_stuck:
  assumes "chunk_loop a start li gi chunks = Some y"
  shows "\<not> stuck a start"
proof (rule chunk_loop.raw_induct
    [where P = "\<lambda>a start li gi chunks y. \<not> stuck a start", OF _ assms], goal_cases)
  case (1 f a start li gi chunks y)
  show ?case
  proof
    assume st: "stuck a start"
    let ?s = "max 0 (start + chunk_size_words a - overlap_words a)"
    from 1(2) st obtain li' gi' chunks' where "f a ?s li' gi' chunks' = Some y"
      by (auto simp: stuck_def Let_def min_def split: if_splits)
    then have "\<not> stuck a ?s" by (rule 1(1))
    with stuck_next [OF st] show False by simp
  qed
qed

lemma chunk_page_text_diverges:
  assumes "py_split page_text \<noteq> []"
    and "csw < int (length (py_split page_text))"
    and "csw \<le> ow"
  shows "chunk_page_text uuids page_text ty pn csw ow g = None"
proof (cases "chunk_page_text uuids page_text ty pn csw ow g")
  case None
  then show ?thesis .
next
  case (Some y)
  define a where "a = \<lparr>words = py_split page_text, arg_pdf_type = ty, arg_page_number = pn,
                chunk_size_words = csw, overlap_words = ow, uuid4 = uuids\<rparr>"
  have "chunk_loop a 0 0 g [] = Some y"
    using Some assms(1) by (simp add: chunk_page_text_def a_def Let_def)
  from chunk_loop_stuck [OF this] assms show ?thesis by (simp add: a_def stuck_def)
qed

lemma indexed_from_Nil: "indexed_from li gi []"
  by (simp add: indexed_from_def)

lemma indexed_from_append:
  "indexed_from li gi (xs @ ys) \<longleftrightarrow>
     indexed_from li gi xs \<and> indexed_from (li + int (length xs)) (gi + int (length xs)) ys"
proof (induction xs arbitrary: li gi)
  case Nil
  show ?case by (simp add: indexed_from_Nil)
next
  case (Cons x xs)
  show ?case by (simp add: indexed_from_Cons Cons.IH add.assoc)
qed

lemma chunk_loop_returns:
  assumes "chunk_loop a start li gi chunks = Some y"
  shows "\<exists>new. y = chunks @ new \<and> indexed_from li gi new \<and>
           (\<forall>c \<in> set new. page_number (metadata c) = arg_page_number a)"
proof (rule chunk_loop.raw_induct
    [where P = "\<lambda>a start li gi chunks y. \<exists>new. y = chunks @ new \<and> indexed_from li gi new \<and>
           (\<forall>c \<in> set new. page_number (metadata c) = arg_page_number a)", OF _ assms], goal_cases)
  case (1 f a start li gi chunks y)
  show ?case
  proof (cases "start < int (length (words a))")
    case False
    with 1(2) have "y = chunks" by simp
    then show ?thesis by (simp add: indexed_from_Nil)
  next
    case True
    define e where "e = min (start + chunk_size_words a) (int (length (words a)))"
    define c where "c = make_chunk (uuid4 a (length chunks))
        (py_join (ustr '' '') (py_slice (words a) start e))
        \<lparr>pdf_type = arg_pdf_type a, page_number = arg_page_number a,
          local_chunk_index = li, global_chunk_index = gi\<rparr>"
    have c: "local_chunk_index (metadata c) = li" "global_chunk_index (metadata c) = gi"
      "page_number (metadata c) = arg_page_number a"
      by (simp_all add: c_def make_chunk_def)
    show ?thesis
    proof (cases "e = int (length (words a))")
      case True
      with 1(2) \<open>start < int (length (words a))\<close> have "y = chunks @ [c]"
        by (simp add: Let_def e_def [symmetric] c_def)
      then show ?thesis using c by (simp add: indexed_from_Cons indexed_from_Nil)
    next
      case False
      with 1(2) \<open>start < int (length (words a))\<close>
      have "f a (max 0 (e - overlap_words a)) (li + 1) (gi + 1) (chunks @ [c]) = Some y"
        by (simp add: Let_def e_def [symmetric] c_def)
      from 1(1) [OF this] obtain new where "y = (chunks @ [c]) @ new"
        "indexed_from (li + 1) (gi + 1) new"
        "\<forall>c \<in> set new. page_number (metadata c) = arg_page_number a" by blast
      then show ?thesis using c
        by (intro exI [of _ "c # new"]) (simp add: indexed_from_Cons)
    qed
  qed
qed

lemma chunk_loop_terminates:
  assumes "overlap_words a < chunk_size_words a" and "0 \<le> start"
  shows "\<exists>y. chunk_loop a start li gi chunks = Some y"
  using assms(2)
proof (induction "nat (int (length (words a)) - start)" arbitrary: start li gi chunks
    rule: less_induct)
  case less
  show ?case
  proof (cases "start < int (length (words a))")
    case False
    then show ?thesis by (subst chunk_loop.simps) simp
  next
    case lt: True
    show ?thesis
    proof (cases "int (length (words a)) \<le> start + chunk_size_words a")
      case True
      then show ?thesis using chunk_loop_last [OF lt True] by simp
    next
      case False
      define s where "s = start + chunk_size_words a - overlap_words a"
      have s: "max 0 s = s" "0 \<le> s" "start < s"
        using less.prems assms(1) by (simp_all add: s_def)
      have "nat (int (length (words a)) - s) < nat (int (length (words a)) - start)"
        using s lt by simp
      from less.hyps [OF this s(2)] show ?thesis
        using chunk_loop_step [of start a li gi chunks] lt False s(1)
        by (simp add: s_def)
    qed
  qed
qed

lemma chunk_page_text_returns:
  assumes "chunk_page_text uuids page_text ty pn csw ow g = Some y"
  shows "indexed_from 0 g y \<and> (\<forall>c \<in> set y. page_number (metadata c) = pn)"
proof (cases "py_split page_text = []")
  case True
  with assms show ?thesis by (simp add: chunk_page_text_def indexed_from_Nil)
next
  case False
  define a where "a = \<lparr>words = py_split page_text, arg_pdf_type = ty, arg_page_number = pn,
                chunk_size_words = csw, overlap_words = ow, uuid4 = uuids\<rparr>"
  have "chunk_loop a 0 0 g [] = Some y"
    using assms False by (simp add: chunk_page_text_def a_def Let_def)
  from chunk_loop_returns [OF this] show ?thesis by (simp add: a_def)
qed

lemma chunk_page_text_terminates:
  assumes "ow < csw"
  shows "\<exists>y. chunk_page_text uuids page_text ty pn csw ow g = Some y"
proof (cases "py_split page_text = []")
  case True
  then show ?thesis by (simp add: chunk_page_text_def)
next
  case False
  define a where "a = \<lparr>words = py_split page_text, arg_pdf_type = ty, arg_page_number = pn,
                chunk_size_words = csw, overlap_words = ow, uuid4 = uuids\<rparr>"
  have "\<exists>y. chunk_loop a 0 0 g [] = Some y"
    using assms by (intro chunk_loop_terminates) (simp_all add: a_def)
  then show ?thesis using False by (simp add: chunk_page_text_def a_def Let_def)
qed

lemma counts_from_Nil: "counts_from g []"
  by (simp add: counts_from_def)

lemma counts_from_Cons: "counts_from g (z # zs) \<longleftrightarrow> z = g \<and> counts_from (g + 1) zs"
proof -
  have "map (\<lambda>i. g + int i) [0..<Suc n] = g # map (\<lambda>i. g + 1 + int i) [0..<n]" for n
    by (simp add: upt_conv_Cons map_Suc_upt [symmetric] del: upt_Suc)
  then show ?thesis by (auto simp: counts_from_def)
qed

lemma counts_from_append:
  "counts_from g (xs @ ys) \<longleftrightarrow> counts_from g xs \<and> counts_from (g + int (length xs)) ys"
proof (induction xs arbitrary: g)
  case Nil
  show ?case by (simp add: counts_from_Nil)
next
  case (Cons x xs)
  show ?case by (simp add: counts_from_Cons Cons.IH add.assoc)
qed

lemma indexed_from_counts:
  "indexed_from li gi cs \<longleftrightarrow>
     counts_from li (map (local_chunk_index \<circ> metadata) cs) \<and>
     counts_from gi (map (global_chunk_index \<circ> metadata) cs)"
  by (simp add: indexed_from_def counts_from_def)

lemma chunk_pdf_pages_returns:
  assumes "chunk_pdf_pages isalnum uuids ty csw ow incl pages page_idx chunks g = Some y"
  shows "\<exists>blocks. length blocks = length pages \<and> y = chunks @ concat blocks \<and>
     counts_from g (map (global_chunk_index \<circ> metadata) (concat blocks)) \<and>
     (\<forall>i<length pages. page_block isalnum incl (pages ! i) (page_idx + int i) (blocks ! i))"
  using assms
proof (induction pages arbitrary: page_idx chunks g)
  case Nil
  then show ?case by (simp add: counts_from_Nil)
next
  case (Cons pg rest)
  define page_text where "page_text = extract_page_content pg page_idx incl 8000"
  show ?case
  proof (cases "list_ex isalnum page_text")
    case False
    with Cons.prems
    have "chunk_pdf_pages isalnum uuids ty csw ow incl rest (page_idx + 1) chunks g = Some y"
      by (simp add: page_text_def [symmetric])
    from Cons.IH [OF this] obtain blocks where b: "length blocks = length rest"
      "y = chunks @ concat blocks"
      "counts_from g (map (global_chunk_index \<circ> metadata) (concat blocks))"
      "\<forall>i<length rest. page_block isalnum incl (rest ! i) (page_idx + 1 + int i) (blocks ! i)"
      by blast
    have "page_block isalnum incl ((pg # rest) ! i) (page_idx + int i) (([] # blocks) ! i)"
      if "i < length (pg # rest)" for i
    proof (cases i)
      case 0
      then show ?thesis by (simp add: page_block_def)
    next
      case (Suc j)
      with that b(4) have "page_block isalnum incl (rest ! j) (page_idx + 1 + int j) (blocks ! j)"
        by simp
      then show ?thesis using Suc by (simp add: ac_simps)
    qed
    then show ?thesis using b(1,2,3) by (intro exI [of _ "[] # blocks"]) (simp add: comp_def)
  next
    case True
    with Cons.prems obtain pc where
      pc: "chunk_page_text (\<lambda>k. uuids (length chunks + k)) page_text ty page_idx csw ow g = Some pc"
      and run: "chunk_pdf_pages isalnum uuids ty csw ow incl rest (page_idx + 1) (chunks @ pc)
          (g + int (length pc)) = Some y"
      by (auto simp: page_text_def [symmetric] split: option.splits)
    from chunk_page_text_returns [OF pc]
    have pcp: "indexed_from 0 g pc" "\<forall>c \<in> set pc. page_number (metadata c) = page_idx"
      by simp_all
    from Cons.IH [OF run] obtain blocks where b: "length blocks = length rest"
      "y = (chunks @ pc) @ concat blocks"
      "counts_from (g + int (length pc)) (map (global_chunk_index \<circ> metadata) (concat blocks))"
      "\<forall>i<length rest. page_block isalnum incl (rest ! i) (page_idx + 1 + int i) (blocks ! i)"
      by blast
    have g: "counts_from g (map (global_chunk_index \<circ> metadata) (concat (pc # blocks)))"
      using pcp(1) b(3) by (simp add: counts_from_append indexed_from_counts)
    have "page_block isalnum incl ((pg # rest) ! i) (page_idx + int i) ((pc # blocks) ! i)"
      if "i < length (pg # rest)" for i
    proof (cases i)
      case 0
      then show ?thesis using pcp True
        by (simp add: page_block_def page_text_def indexed_from_def)
    next
      case (Suc j)
      with that b(4) have "page_block isalnum incl (rest ! j) (page_idx + 1 + int j) (blocks ! j)"
        by simp
      then show ?thesis using Suc by (simp add: ac_simps)
    qed
    then show ?thesis using b(1,2) g by (intro exI [of _ "pc # blocks"]) (simp add: comp_def)
  qed
qed

lemma chunk_pdf_pages_terminates:
  assumes "ow < csw"
  shows "\<exists>y. chunk_pdf_pages isalnum uuids ty csw ow incl pages page_idx chunks g = Some y"
proof (induction pages arbitrary: page_idx chunks g)
  case Nil
  show ?case by simp
next
  case (Cons pg rest)
  define page_text where "page_text = extract_page_content pg page_idx incl 8000"
  obtain pc where
    "chunk_page_text (\<lambda>k. uuids (length chunks + k)) page_text ty page_idx csw ow g = Some pc"
    using chunk_page_text_terminates [OF assms] by blast
  then show ?case using Cons.IH
    by (simp add: page_text_def [symmetric] Let_def)
qed

text \<open>
  The chunks \<^verbatim>\<open>chunk_pdf\<close> returns are the per-page blocks in page order: global indices
  0, 1, 2, ... with no gap or repeat, local indices from 0 on every page, and no chunk for a
  page whose rendered content has no alphanumeric character.
\<close>

lemma chunk_pdf_indices:
  assumes "open_pdf pdf_path = Inr pages"
  shows "(ow < csw \<longrightarrow>
            (\<exists>chunks. chunk_pdf open_pdf isalnum uuids pdf_path ty csw ow incl = Some (Inr chunks))) \<and>
         (\<forall>chunks. chunk_pdf open_pdf isalnum uuids pdf_path ty csw ow incl = Some (Inr chunks) \<longrightarrow>
            map (global_chunk_index \<circ> metadata) chunks = map int [0..<length chunks] \<and>
            (\<exists>blocks. length blocks = length pages \<and> chunks = concat blocks \<and>
               (\<forall>i<length pages.
                  (\<forall>c \<in> set (blocks ! i). page_number (metadata c) = int i + 1) \<and>
                  map (local_chunk_index \<circ> metadata) (blocks ! i) = map int [0..<length (blocks ! i)] \<and>
                  (\<not> list_ex isalnum (extract_page_content (pages ! i) (int i + 1) incl 8000) \<longrightarrow>
                     blocks ! i = []))))"
proof (intro conjI impI allI)
  assume "ow < csw"
  from chunk_pdf_pages_terminates [OF this, of isalnum uuids ty incl pages 1 "[]" 0]
  show "\<exists>chunks. chunk_pdf open_pdf isalnum uuids pdf_path ty csw ow incl = Some (Inr chunks)"
    using assms by (auto simp: chunk_pdf_def)
next
  fix chunks
  assume "chunk_pdf open_pdf isalnum uuids pdf_path ty csw ow incl = Some (Inr chunks)"
  with assms have "chunk_pdf_pages isalnum uuids ty csw ow incl pages 1 [] 0 = Some chunks"
    by (auto simp: chunk_pdf_def)
  from chunk_pdf_pages_returns [OF this] obtain blocks where b: "length blocks = length pages"
    "chunks = concat blocks"
    "counts_from 0 (map (global_chunk_index \<circ> metadata) (concat blocks))"
    "\<forall>i<length pages. page_block isalnum incl (pages ! i) (1 + int i) (blocks ! i)"
    by auto
  from b(2,3) show "map (global_chunk_index \<circ> metadata) chunks = map int [0..<length chunks]"
    by (simp add: counts_from_def)
  from b(1,2,4) show "\<exists>blocks. length blocks = length pages \<and> chunks = concat blocks \<and>
               (\<forall>i<length pages.
                  (\<forall>c \<in> set (blocks ! i). page_number (metadata c) = int i + 1) \<and>
                  map (local_chunk_index \<circ> metadata) (blocks ! i) = map int [0..<length (blocks ! i)] \<and>
                  (\<not> list_ex isalnum (extract_page_content (pages ! i) (int i + 1) incl 8000) \<longrightarrow>
                     blocks ! i = []))"
    by (intro exI [of _ blocks]) (simp add: page_block_def add.commute)
qed

lemma chunk_pdf_indices_example:
  "\<exists>chunks blocks.
     chunk_pdf (\<lambda>p. Inr [\<lparr>extract_text = Some (ustr ''one two three''), extract_tables = Inr None\<rparr>,
                          \<lparr>extract_text = Some (ustr '' -- ''), extract_tables = Inr None\<rparr>])
       (\<lambda>c. 97 \<le> c \<and> c \<le> 122) (\<lambda>k. []) (ustr ''a.pdf'') (ustr ''other'') 2 1 True
       = Some (Inr chunks) \<and>
     map (global_chunk_index \<circ> metadata) chunks = map int [0..<length chunks] \<and>
     length blocks = 2 \<and> chunks = concat blocks \<and> blocks ! 1 = []"
proof -
  define pages where "pages = [\<lparr>extract_text = Some (ustr ''one two three''), extract_tables = Inr None\<rparr>,
                 \<lparr>extract_text = Some (ustr '' -- ''), extract_tables = Inr None\<rparr>]"
  define alnum where "alnum = (\<lambda>c::nat. 97 \<le> c \<and> c \<le> 122)"
  define open_pdf where "open_pdf = (\<lambda>p::ustring. (Inr pages :: exn + page list))"
  have "extract_page_content \<lparr>extract_text = Some (ustr '' -- ''), extract_tables = Inr None\<rparr> 2 True 8000
      = ustr ''--''"
    by (simp add: extract_page_content_def ustr_def py_strip_def isspace_def Let_def)
  then have empty: "\<not> list_ex alnum (extract_page_content (pages ! 1) (int 1 + 1) True 8000)"
    by (simp add: pages_def alnum_def ustr_def)
  have len: "length pages = 2" by (simp add: pages_def)
  have h: "open_pdf (ustr ''a.pdf'') = Inr pages" by (simp add: open_pdf_def)
  note T = chunk_pdf_indices [where open_pdf = open_pdf and pdf_path = "ustr ''a.pdf''"
      and pages = pages and ow = 1 and csw = 2 and isalnum = alnum and uuids = "\<lambda>k. []"
      and ty = "ustr ''other''" and incl = True, OF h]
  from T obtain chunks where
    c: "chunk_pdf open_pdf alnum (\<lambda>k. []) (ustr ''a.pdf'') (ustr ''other'') 2 1 True = Some (Inr chunks)"
    by auto
  from T c obtain blocks where b: "map (global_chunk_index \<circ> metadata) chunks = map int [0..<length chunks]"
    "length blocks = length pages" "chunks = concat blocks"
    "\<forall>i<length pages. \<not> list_ex alnum (extract_page_content (pages ! i) (int i + 1) True 8000) \<longrightarrow> blocks ! i = []"
    by blast
  from b(4) len empty have "blocks ! 1 = []" by simp
  with c b(1,2,3) len have "\<exists>chunks blocks.
     chunk_pdf open_pdf alnum (\<lambda>k. []) (ustr ''a.pdf'') (ustr ''other'') 2 1 True = Some (Inr chunks) \<and>
     map (global_chunk_index \<circ> metadata) chunks = map int [0..<length chunks] \<and>
     length blocks = 2 \<and> chunks = concat blocks \<and> blocks ! 1 = []"
    by (intro exI [of _ chunks] exI [of _ blocks]) simp
  then show ?thesis
    unfolding open_pdf_def pages_def alnum_def .
qed

lemma blank_table_markdown:
  "table_to_markdown [[None, None]] = ustr ''|  |  |'' @ [10] @ ustr ''| --- | --- |''"
  by (simp add: table_to_markdown_def clean_cell_def md_line_def py_replace_def py_strip_def
      ustr_def Let_def)

lemma blank_table_content:
  "extract_page_content blank_table_page 1 True 8000 = blank_table_rendered"
  by (simp add: extract_page_content_def blank_table_page_def blank_table_markdown
      blank_table_rendered_def py_str_int_def digits.simps Let_def)
     (simp add: py_strip_def ustr_def isspace_def)

lemma blank_table_words:
  "py_split blank_table_rendered =
     [ustr ''###'', ustr ''Table'', ustr ''1'', ustr ''(page'', ustr ''1)'', ustr ''|'', ustr ''|'',
      ustr ''|'', ustr ''|'', ustr ''---'', ustr ''|'', ustr ''---'', ustr ''|'']"
  by (simp add: blank_table_rendered_def py_split_def ustr_def isspace_def)

lemma blank_table_page_chunk:
  "chunk_page_text uuids blank_table_rendered ty 1 400 50 0 =
   Some [\<lparr>chunk_id = uuids 0,
          chunk_text = ustr ''### Table 1 (page 1) | | | | --- | --- |'',
          metadata = \<lparr>pdf_type = ty, page_number = 1, local_chunk_index = 0,
                       global_chunk_index = 0\<rparr>\<rparr>]"
proof -
  define a where "a = \<lparr>words = [ustr ''###'', ustr ''Table'', ustr ''1'', ustr ''(page'', ustr ''1)'',
        ustr ''|'', ustr ''|'', ustr ''|'', ustr ''|'', ustr ''---'', ustr ''|'', ustr ''---'', ustr ''|''],
      arg_pdf_type = ty, arg_page_number = 1, chunk_size_words = 400, overlap_words = 50,
      uuid4 = uuids\<rparr>"
  have "chunk_loop a 0 0 0 [] =
     Some ([] @ [make_chunk (uuid4 a (length ([] :: chunk list)))
        (py_join (ustr '' '') (py_slice (words a) 0 (int (length (words a)))))
        \<lparr>pdf_type = arg_pdf_type a, page_number = arg_page_number a,
          local_chunk_index = 0, global_chunk_index = 0\<rparr>])"
    by (rule chunk_loop_last) (simp_all add: a_def)
  moreover have "py_strip (py_join (ustr '' '') (py_slice (words a) 0 (int (length (words a))))) =
      ustr ''### Table 1 (page 1) | | | | --- | --- |''"
    by (simp add: a_def py_slice_def py_strip_def ustr_def isspace_def)
  ultimately have "chunk_loop a 0 0 0 [] =
     Some [\<lparr>chunk_id = uuids 0,
          chunk_text = ustr ''### Table 1 (page 1) | | | | --- | --- |'',
          metadata = \<lparr>pdf_type = ty, page_number = 1, local_chunk_index = 0,
                       global_chunk_index = 0\<rparr>\<rparr>]"
    by (simp add: make_chunk_def a_def)
  then show ?thesis
    by (simp add: chunk_page_text_def blank_table_words Let_def a_def)
qed

section \<open>Properties of the LLM gateway\<close>

lemma ask_llm_loop_retries:
  assumes "\<forall>i<k. \<exists>e. create i = Inl e \<and> transient lower e" and "k \<le> n"
  shows "ask_llm_loop lower create [0..<n] [] 0 =
         ask_llm_loop lower create [k..<n] (map (\<lambda>i. min (2 ^ i) 15) [0..<k]) k"
  using assms
proof (induction k)
  case 0
  show ?case by simp
next
  case (Suc k)
  then obtain e where e: "create k = Inl e" "transient lower e" by auto
  have "[k..<n] = k # [Suc k..<n]" using Suc.prems(2) by (simp add: upt_conv_Cons)
  with Suc e show ?case by simp
qed

section \<open>Properties of the structured extractor\<close>

lemma process_page_with_llm_page_number:
  "process_page_with_llm w ty tmpl pinfo = Inr (pn, items) \<Longrightarrow> pn = pi_page_number pinfo"
  by (auto simp: process_page_with_llm_def Let_def split: sum.splits json.splits if_splits)

lemma dict_set_fresh: "k \<notin> set (map fst d) \<Longrightarrow> dict_set k v d = d @ [(k, v)]"
  by (simp add: dict_set_def)

lemma dict_setdefault_fresh: "k \<notin> set (map fst d) \<Longrightarrow> dict_setdefault k v d = d @ [(k, v)]"
  by (simp add: dict_setdefault_def)

lemma collect_futures_distinct:
  assumes "distinct (map fst d @ map pi_page_number completed)"
  shows "collect_futures w ty tmpl completed d =
         d @ map (\<lambda>p. (pi_page_number p, page_items w ty tmpl p)) completed"
  using assms
proof (induction completed arbitrary: d)
  case Nil
  show ?case by simp
next
  case (Cons p completed)
  have fresh: "pi_page_number p \<notin> set (map fst d)" using Cons.prems by auto
  define d' where "d' = d @ [(pi_page_number p, page_items w ty tmpl p)]"
  have step: "(case process_page_with_llm w ty tmpl p of
          Inr (pn, items) \<Rightarrow> dict_set pn items d
        | Inl e \<Rightarrow> dict_setdefault (pi_page_number p) [] d) = d'"
  proof (cases "process_page_with_llm w ty tmpl p")
    case (Inl e)
    then show ?thesis using fresh by (simp add: d'_def page_items_def dict_setdefault_fresh)
  next
    case (Inr r)
    obtain pn items where r: "r = (pn, items)" by (cases r)
    with Inr have "pn = pi_page_number p" by (auto dest: process_page_with_llm_page_number)
    with Inr r fresh show ?thesis by (simp add: d'_def page_items_def dict_set_fresh)
  qed
  have "distinct (map fst d' @ map pi_page_number completed)"
    using Cons.prems by (auto simp: d'_def)
  from Cons.IH [OF this] show ?case by (simp add: step d'_def)
qed

lemma map_of_keyed:
  assumes "distinct (map f xs)" and "x \<in> set xs"
  shows "map_of (map (\<lambda>p. (f p, g p)) xs) (f x) = Some (g x)"
  using assms by (induction xs) (auto simp: rev_image_eqI)

lemma flatten_keyed:
  assumes "distinct (map f completed)" and "mset completed = mset pages"
    and "sorted (map f pages)"
  shows "flatten_in_page_order (map (\<lambda>p. (f p, g p)) completed) = concat (map g pages)"
proof -
  have set_eq: "set pages = set completed" using assms(2) by (metis set_mset_mset)
  have "mset (map f completed) = mset (map f pages)" using assms(2) by simp
  then have "sort (map f completed) = sort (map f pages)"
    by (metis properties_for_sort sorted_sort mset_sort)
  also have "\<dots> = map f pages" using assms(3) by (rule sort_key_id_if_sorted [of "\<lambda>x. x", simplified])
  finally have keys: "sort (map fst (map (\<lambda>p. (f p, g p)) completed)) = map f pages"
    by (simp add: comp_def)
  have "(case map_of (map (\<lambda>p. (f p, g p)) completed) (f x) of Some items \<Rightarrow> items | None \<Rightarrow> []) = g x"
    if "x \<in> set pages" for x
    using map_of_keyed [OF assms(1), of x g] that set_eq by simp
  then show ?thesis
    unfolding flatten_in_page_order_def keys by (simp add: comp_def cong: map_cong)
qed

lemma read_pages_numbers:
  "sorted_wrt (<) (map pi_page_number (read_pages w ty pages i)) \<and>
   (\<forall>p \<in> set (read_pages w ty pages i). i \<le> pi_page_number p)"
proof (induction pages arbitrary: i)
  case Nil
  show ?case by simp
next
  case (Cons pg rest)
  have n: "pi_page_number (extractor_page_content pg i) = i"
    by (simp add: extractor_page_content_def Let_def)
  from Cons [of "i + 1"] have "\<forall>p \<in> set (read_pages w ty rest (i + 1)). i < pi_page_number p"
    by auto
  with Cons [of "i + 1"] n show ?case by (auto simp: Let_def)
qed

lemma flatten_single: "flatten_in_page_order (dict_set pn items []) = items"
  by (simp add: flatten_in_page_order_def dict_set_def)

lemma pool_flatten:
  assumes "mset completed = mset (read_pages w ty pages i)"
  shows "flatten_in_page_order (collect_futures w ty tmpl completed []) =
         concat (map (page_items w ty tmpl) (read_pages w ty pages i))"
proof -
  let ?ptp = "read_pages w ty pages i"
  have st: "sorted_wrt (<) (map pi_page_number ?ptp)"
    using read_pages_numbers [of w ty pages i] by simp
  then have d: "distinct (map pi_page_number ?ptp)" and s: "sorted (map pi_page_number ?ptp)"
    using strict_sorted_iff by blast+
  have "mset (map pi_page_number completed) = mset (map pi_page_number ?ptp)"
    using assms by simp
  with d have dc: "distinct (map pi_page_number completed)"
    by (metis mset_eq_imp_distinct_iff)
  then have "collect_futures w ty tmpl completed [] =
      [] @ map (\<lambda>p. (pi_page_number p, page_items w ty tmpl p)) completed"
    by (intro collect_futures_distinct) simp
  then show ?thesis
    using flatten_keyed [OF dc assms s, of "page_items w ty tmpl"] by simp
qed

lemma example_classifier:
  "classifier_pdf_type example_world schedule_classifier = Inr (ustr ''project_schedule'')"
  by (simp add: classifier_pdf_type_def schedule_classifier_def PROMPT_MAP_def example_world_def ustr_def)

lemma example_template:
  "map_of (PROMPT_MAP example_world) (ustr ''project_schedule'') = Some (ustr ''Extract the tasks.'')"
  by (simp add: PROMPT_MAP_def example_world_def ustr_def)

lemma example_page_content:
  "extractor_page_content \<lparr>extract_text = Some (ustr ''Task A 5 days''), extract_tables = Inr None\<rparr> n
     = \<lparr>pi_page_number = n, pi_text = ustr ''Task A 5 days'', pi_tables_markdown = []\<rparr>"
  "extractor_page_content \<lparr>extract_text = Some (ustr ''Task B 7 days''), extract_tables = Inr None\<rparr> n
     = \<lparr>pi_page_number = n, pi_text = ustr ''Task B 7 days'', pi_tables_markdown = []\<rparr>"
  by (simp_all add: extractor_page_content_def ustr_def py_strip_def isspace_def Let_def)

lemma example_read_one:
  "read_pages example_world (ustr ''project_schedule'')
     [\<lparr>extract_text = Some (ustr ''Task A 5 days''), extract_tables = Inr None\<rparr>] 1
   = [\<lparr>pi_page_number = 1, pi_text = ustr ''Task A 5 days'', pi_tables_markdown = []\<rparr>]"
  by (simp add: example_page_content Let_def) (simp add: ustr_def)

lemma example_read_two:
  "read_pages example_world (ustr ''project_schedule'')
     [\<lparr>extract_text = Some (ustr ''Task A 5 days''), extract_tables = Inr None\<rparr>,
      \<lparr>extract_text = Some (ustr ''Task B 7 days''), extract_tables = Inr None\<rparr>] 1
   = [\<lparr>pi_page_number = 1, pi_text = ustr ''Task A 5 days'', pi_tables_markdown = []\<rparr>,
      \<lparr>pi_page_number = 2, pi_text = ustr ''Task B 7 days'', pi_tables_markdown = []\<rparr>]"
  by (simp add: example_page_content Let_def) (simp add: ustr_def)

lemma ask_llm_first_error:
  assumes "client prompt 0 = Inl err" and "\<not> transient lower err" and "0 < max_retries"
  shows "outcome (ask_llm lower client prompt max_retries) = Inl (External err)"
proof -
  have "[0..<nat max_retries] = 0 # [1..<nat max_retries]"
    using assms(3) by (simp add: upt_conv_Cons)
  then show ?thesis using assms(1,2) by (simp add: ask_llm_def)
qed

lemma process_page_llm_error:
  assumes "llm_client w (build_prompt ty tmpl pinfo) 0 = Inl err"
    and "\<not> transient (str_lower w) err"
  shows "process_page_with_llm w ty tmpl pinfo = Inl (External err)"
  using ask_llm_first_error [where client = "llm_client w" and lower = "str_lower w"
      and max_retries = 6, OF assms]
  by (simp add: process_page_with_llm_def Let_def)

lemma example_not_transient:
  "\<not> transient ascii_lower (ustr ''Error code: 401 - invalid api key'')"
  by (simp add: transient_def ustr_def ascii_lower_def)

lemma example_page_fails:
  "process_page_with_llm example_world ty tmpl pinfo =
     Inl (External (ustr ''Error code: 401 - invalid api key''))"
  by (rule process_page_llm_error) (simp_all add: example_world_def example_not_transient)

lemma process_single_pdf_one_page_error:
  assumes "classifier_pdf_type w classifier = Inr pdf_ty"
    and "map_of (PROMPT_MAP w) pdf_ty = Some prompt_template"
    and "pdfplumber_open w pdf_path = Inr pages"
    and "read_pages w pdf_ty pages 1 = [pinfo]"
    and "process_page_with_llm w pdf_ty prompt_template pinfo = Inl e"
  shows "process_single_pdf w as_completed pdf_path classifier = Inl e"
  using assms by (simp add: process_single_pdf_def)

lemma py_index_None: "py_index s c = None \<longleftrightarrow> c \<notin> set s"
  by (induction s) auto

lemma py_index_Some:
  "py_index s c = Some i \<Longrightarrow> i = length (takeWhile (\<lambda>x. x \<noteq> c) s) \<and> i < length s"
  by (induction s arbitrary: i) (auto split: if_splits)

lemma py_rindex_None: "py_rindex s c = None \<longleftrightarrow> c \<notin> set s"
  by (simp add: py_rindex_def py_index_None)

lemma py_rindex_Some:
  assumes "py_rindex s c = Some j"
  shows "j + 1 = length s - length (takeWhile (\<lambda>x. x \<noteq> c) (rev s))"
proof -
  from assms obtain i where i: "py_index (rev s) c = Some i" and j: "j = length s - 1 - i"
    by (auto simp: py_rindex_def)
  from py_index_Some [OF i] have "i = length (takeWhile (\<lambda>x. x \<noteq> c) (rev s))" "i < length s"
    by simp_all
  with j show ?thesis by simp
qed

lemma drop_first: "drop (length (takeWhile P s)) s = dropWhile P s"
  by (induction s) auto

lemma strip_after_last:
  "rev (dropWhile P (rev t)) = take (length t - length (takeWhile P (rev t))) t"
proof -
  have "dropWhile P (rev t) = drop (length (takeWhile P (rev t))) (rev t)"
    by (simp add: drop_first)
  also have "\<dots> = rev (take (length t - length (takeWhile P (rev t))) t)"
    by (simp add: drop_rev)
  finally show ?thesis by simp
qed

lemma takeWhile_take: "takeWhile P (take m xs) = take m (takeWhile P xs)"
proof (induction xs arbitrary: m)
  case Nil
  show ?case by simp
next
  case (Cons x xs)
  show ?case by (cases m) (simp_all add: Cons)
qed

lemma snippet_slice:
  assumes "py_index s 91 = Some start" and "py_rindex s 93 = Some e"
  shows "py_slice s (int start) (int e + 1) =
         rev (dropWhile (\<lambda>c. c \<noteq> 93) (rev (dropWhile (\<lambda>c. c \<noteq> 91) s)))"
proof -
  define n where "n = length s"
  define i where "i = length (takeWhile (\<lambda>x. x \<noteq> 93) (rev s))"
  from py_index_Some [OF assms(1)]
  have st: "start = length (takeWhile (\<lambda>x. x \<noteq> 91) s)" "start < n" by (simp_all add: n_def)
  from py_rindex_Some [OF assms(2)] have e: "e + 1 = n - i" by (simp add: n_def i_def)
  have "i \<le> n" unfolding i_def n_def
    by (metis length_rev length_takeWhile_le)
  have t: "dropWhile (\<lambda>c. c \<noteq> 91) s = drop start s" by (simp add: st(1) drop_first)
  have "rev (drop start s) = take (n - start) (rev s)" by (simp add: rev_drop n_def)
  then have "length (takeWhile (\<lambda>x. x \<noteq> 93) (rev (drop start s))) = min (n - start) i"
    by (simp add: takeWhile_take i_def min_def)
  then have "rev (dropWhile (\<lambda>c. c \<noteq> 93) (rev (drop start s))) =
      take (n - start - min (n - start) i) (drop start s)"
    by (simp add: strip_after_last n_def)
  moreover have "n - start - min (n - start) i = e + 1 - start"
    using e \<open>i \<le> n\<close> st(2) by (auto simp: min_def)
  moreover have "py_slice s (int start) (int e + 1) = take (e + 1 - start) (drop start s)"
  proof -
    have "e + 1 \<le> n" using e by simp
    then have "min (int e + 1) (int n) = int e + 1" by simp
    moreover have "min (int start) (int n) = int start" using st(2) by simp
    moreover have "nat (int e + 1 - int start) = e + 1 - start" by simp
    ultimately show ?thesis by (simp add: py_slice_def Let_def n_def [symmetric])
  qed
  ultimately show ?thesis by (simp add: t)
qed

lemma safe_json_loads_stages:
  "safe_json_loads lower loads raw =
     (case loads (cleaned_response lower raw) of
        Inr v \<Rightarrow> v
      | Inl e \<Rightarrow>
          (case bracket_snippet (cleaned_response lower raw) of
             None \<Rightarrow> JArr []
           | Some t \<Rightarrow> (case loads t of Inr v \<Rightarrow> v | Inl e' \<Rightarrow> JArr [])))"
proof -
  define s where "s = cleaned_response lower raw"
  have "(case py_index s 91 of
                None \<Rightarrow> JArr []
              | Some start \<Rightarrow>
                  (case py_rindex s 93 of
                     None \<Rightarrow> JArr []
                   | Some end \<Rightarrow>
                       (case loads (py_slice s (int start) (int end + 1)) of
                          Inr v \<Rightarrow> v
                        | Inl e' \<Rightarrow> JArr []))) =
        (case bracket_snippet s of
             None \<Rightarrow> JArr []
           | Some t \<Rightarrow> (case loads t of Inr v \<Rightarrow> v | Inl e' \<Rightarrow> JArr []))"
  proof (cases "py_index s 91")
    case None
    then have "91 \<notin> set s" using py_index_None [of s 91] by simp
    then show ?thesis by (simp add: None bracket_snippet_def)
  next
    case (Some start)
    then have in91: "91 \<in> set s" using py_index_None [of s 91] by auto
    show ?thesis
    proof (cases "py_rindex s 93")
      case None
      then have "93 \<notin> set s" using py_rindex_None [of s 93] by simp
      then show ?thesis by (simp add: None Some bracket_snippet_def)
    next
      case (Some e)
      then have "93 \<in> set s" using py_rindex_None [of s 93] by auto
      with in91 show ?thesis
        by (simp add: Some \<open>py_index s 91 = Some start\<close> bracket_snippet_def
            snippet_slice [OF \<open>py_index s 91 = Some start\<close> Some])
    qed
  qed
  note main = this
  have src: "safe_json_loads lower loads raw =
     (case loads s of
        Inr v \<Rightarrow> v
      | Inl e \<Rightarrow>
          (case py_index s 91 of
                None \<Rightarrow> JArr []
              | Some start \<Rightarrow>
                  (case py_rindex s 93 of
                     None \<Rightarrow> JArr []
                   | Some end \<Rightarrow>
                       (case loads (py_slice s (int start) (int end + 1)) of
                          Inr v \<Rightarrow> v
                        | Inl e' \<Rightarrow> JArr []))))"
    by (simp only: safe_json_loads_def cleaned_response_def s_def Let_def)
  have "safe_json_loads lower loads raw =
     (case loads s of
        Inr v \<Rightarrow> v
      | Inl e \<Rightarrow>
          (case bracket_snippet s of
             None \<Rightarrow> JArr []
           | Some t \<Rightarrow> (case loads t of Inr v \<Rightarrow> v | Inl e' \<Rightarrow> JArr [])))"
    by (simp only: src main)
  then show ?thesis by (simp only: s_def)
qed

lemma ask_llm_first_success:
  assumes "client prompt 0 = Inr output_text" and "0 < max_retries"
  shows "outcome (ask_llm lower client prompt max_retries) = Inr output_text"
proof -
  have "[0..<nat max_retries] = 0 # [1..<nat max_retries]"
    using assms(2) by (simp add: upt_conv_Cons)
  then show ?thesis using assms(1) by (simp add: ask_llm_def)
qed

lemma process_page_non_list:
  assumes "outcome (ask_llm (str_lower w) (llm_client w) (build_prompt ty tmpl pinfo) 6) = Inr llm_raw"
    and "\<forall>xs. safe_json_loads (str_lower w) (json_loads w) llm_raw \<noteq> JArr xs"
  shows "process_page_with_llm w ty tmpl pinfo = Inr (pi_page_number pinfo, [])"
  using assms
  by (cases "safe_json_loads (str_lower w) (json_loads w) llm_raw")
     (simp_all add: process_page_with_llm_def Let_def)

lemma cleaned_fenced_example:
  \<open>cleaned_response ascii_lower (ustr ''```json'' @ [10] @ ustr ''[{"a":1}]'' @ [10] @ ustr ''```'')
     = ustr ''[{"a":1}]'' @ [10]\<close>
  by (simp add: cleaned_response_def ustr_def py_strip_def py_strip_chars_def py_lstrip_def
      isspace_def ascii_lower_def Let_def)

lemma snippet_trailing_example:
  "bracket_snippet (ustr ''[1, 2] hope this helps'') = Some (ustr ''[1, 2]'')"
  by (simp add: bracket_snippet_def ustr_def)

lemma object_world_raw:
  \<open>outcome (ask_llm (str_lower object_world) (llm_client object_world) prompt 6) = Inr (ustr ''{"a": 1}'')\<close>
  by (rule ask_llm_first_success) (simp_all add: object_world_def)

lemma object_world_parse:
  \<open>safe_json_loads (str_lower object_world) (json_loads object_world) (ustr ''{"a": 1}'')
     = JObj [(ustr ''a'', JInt 1)]\<close>
proof -
  have \<open>cleaned_response (str_lower object_world) (ustr ''{"a": 1}'') = ustr ''{"a": 1}''\<close>
    by (simp add: cleaned_response_def ustr_def py_strip_def isspace_def Let_def)
  then show ?thesis
    by (simp add: safe_json_loads_stages) (simp add: object_world_def)
qed

section \<open>Properties of the classifier and of the multi-document run\<close>

lemma classify_pdf_first_response:
  assumes "\<And>prompt. llm_client w prompt 0 = Inr raw"
  shows "classify_pdf w pdf_path = Inr raw"
  unfolding classify_pdf_def Let_def
  by (rule ask_llm_first_success) (simp_all add: assms)

lemma tagged_classify:
  \<open>classify_pdf tagged_world pdf_path = Inr (ustr ''{"pdf_type": "other", "reason": "json export"}'')\<close>
  by (rule classify_pdf_first_response) (simp add: tagged_world_def)

lemma tagged_cleaned:
  \<open>py_strip (py_replace (ustr ''json'') []
      (py_strip (py_strip_chars (ustr ''```'')
        (py_strip (ustr ''{"pdf_type": "other", "reason": "json export"}'')))))
    = ustr ''{"pdf_type": "other", "reason": " export"}''\<close>
  by (simp add: ustr_def py_strip_def py_strip_chars_def py_replace_def isspace_def)



lemma classify_all_failure:
  assumes "path \<in> set pdf_paths" and "detect_pdf_type w path = Inl e"
  shows "\<exists>e'. classify_all w pdf_paths = Inl e'"
  using assms by (induction pdf_paths) (auto split: sum.splits)


























section \<open>Properties of chunk persistence\<close>

lemma batches_bounded: "\<forall>b \<in> set (batches n xs). length b \<le> n"
proof (induction n xs rule: batches.induct)
  case (1 n xs)
  show ?case
  proof (cases "n = 0 \<or> xs = []")
    case True
    then show ?thesis by (subst batches.simps) simp
  next
    case False
    with 1 show ?thesis by (subst batches.simps) auto
  qed
qed

lemma store_chunks_in_chroma_batched:
  assumes "store_chunks_in_chroma embed_fn chunks batch_size = Inr run"
  shows "\<forall>b \<in> set (embed_calls run). int (length b) \<le> batch_size"
proof -
  have "\<forall>b \<in> set (batches (nat batch_size) xs). int (length b) \<le> batch_size"
    if "0 < batch_size" for xs :: "ustring list"
    using batches_bounded [of "nat batch_size" xs] that by auto
  with assms show ?thesis
    by (auto simp: store_chunks_in_chroma_def Let_def split: if_splits)
qed

lemma map_of_overwrite:
  "k \<in> set (map fst d) \<Longrightarrow>
     map_of (map (\<lambda>(k', v'). if k' = k then (k', v) else (k', v')) d) k = Some v"
proof (induction d)
  case Nil
  then show ?case by simp
next
  case (Cons kv d)
  obtain k' v' where kv: "kv = (k', v')" by (cases kv)
  show ?case
  proof (cases "k' = k")
    case True
    then show ?thesis by (simp add: kv)
  next
    case False
    with Cons kv show ?thesis by simp
  qed
qed

lemma map_of_fresh_append: "k \<notin> set (map fst d) \<Longrightarrow> map_of (d @ [(k, v)]) k = Some v"
  by (induction d) auto

lemma dict_set_lookup: "map_of (dict_set k v d) k = Some v"
proof (cases "k \<in> set (map fst d)")
  case True
  then show ?thesis using map_of_overwrite [of k d v] by (simp add: dict_set_def)
next
  case False
  then show ?thesis using map_of_fresh_append [of k d v] by (simp add: dict_set_def)
qed

lemma clean_chunks_stored:
  "\<forall>s \<in> set (clean_chunks uuids document_id chunks drawn).
     py_strip (sc_text s) \<noteq> [] \<and>
     map_of (sc_metadata s) (ustr ''document_id'') = Some (MStr document_id)"
proof (induction chunks arbitrary: drawn)
  case Nil
  show ?case by simp
next
  case (Cons c chunks)
  show ?case
  proof (cases "rc_text c")
    case None
    then show ?thesis using Cons by (simp add: Let_def)
  next
    case (Some t)
    then show ?thesis using Cons by (simp add: Let_def dict_set_lookup)
  qed
qed

lemma clean_chunks_keeps_valid:
  assumes "\<forall>c \<in> set chunks. \<exists>t. rc_text c = Some t \<and> py_strip t \<noteq> []"
  shows "map sc_text (clean_chunks uuids document_id chunks drawn) =
         map (\<lambda>c. case rc_text c of Some t \<Rightarrow> t | None \<Rightarrow> []) chunks"
  using assms by (induction chunks arbitrary: drawn) (auto simp: Let_def)

lemma single_embed_call:
  assumes "\<forall>c \<in> set chunks. \<exists>t. rc_text c = Some t \<and> py_strip t \<noteq> []" and "chunks \<noteq> []"
  shows "embed_calls (store_chunks_in_chroma_with_doc_id uuids embed_fn chunks document_id) =
         [map (\<lambda>c. case rc_text c of Some t \<Rightarrow> t | None \<Rightarrow> []) chunks]"
proof -
  have m: "map sc_text (clean_chunks uuids document_id chunks 0) =
         map (\<lambda>c. case rc_text c of Some t \<Rightarrow> t | None \<Rightarrow> []) chunks"
    using assms(1) by (rule clean_chunks_keeps_valid)
  then have "clean_chunks uuids document_id chunks 0 \<noteq> []" using assms(2) by auto
  with m show ?thesis by (simp add: store_chunks_in_chroma_with_doc_id_def Let_def)
qed

text \<open>
  C1. For a page with at least one whitespace-separated word, \<^verbatim>\<open>chunk_page_text\<close> with
  a window of 400 words and an overlap of 50 returns \<open>ceil ((n - 50) / 350)\<close> chunks when
  the word count \<open>n\<close> exceeds 400 and one chunk otherwise, and the global indices of the
  chunks count up from the start index the caller passed.
\<close>

theorem chunk_page_text_count_400_50:
  assumes "py_split page_text \<noteq> []"
  shows "\<exists>chunks. chunk_page_text uuids page_text ty pn 400 50 g = Some chunks \<and>
     int (length chunks) =
       (if 400 < int (length (py_split page_text))
        then \<lceil>real_of_int (int (length (py_split page_text)) - 50) / 350\<rceil>
        else 1) \<and>
     map (global_chunk_index \<circ> metadata) chunks = map (\<lambda>i. g + int i) [0..<length chunks]"
proof -
  have "(0::int) \<le> 50" and "(50::int) < 400" by simp_all
  from chunk_page_text_general [OF assms this, of uuids ty pn g]
  obtain chunks where run: "chunk_page_text uuids page_text ty pn 400 50 g = Some chunks"
    and cnt: "int (length chunks) =
       (if 400 < int (length (py_split page_text))
        then \<lceil>real_of_int (int (length (py_split page_text)) - 50) / real_of_int (400 - 50)\<rceil>
        else 1)"
    and idx: "indexed_from 0 g chunks"
    by blast
  have "real_of_int (400 - 50) = 350" by simp
  with cnt have "int (length chunks) =
       (if 400 < int (length (py_split page_text))
        then \<lceil>real_of_int (int (length (py_split page_text)) - 50) / 350\<rceil>
        else 1)"
    by simp
  moreover from idx have "map (global_chunk_index \<circ> metadata) chunks =
      map (\<lambda>i. g + int i) [0..<length chunks]"
    by (simp add: indexed_from_def)
  ultimately show ?thesis using run by blast
qed

theorem chunk_page_text_count_400_50_witness:
  "py_split (ustr ''hello world'') \<noteq> [] \<and>
   (\<exists>chunks. chunk_page_text (\<lambda>k. []) (ustr ''hello world'') (ustr ''other'') 1 400 50 7 = Some chunks \<and>
     int (length chunks) =
       (if 400 < int (length (py_split (ustr ''hello world'')))
        then \<lceil>real_of_int (int (length (py_split (ustr ''hello world''))) - 50) / 350\<rceil>
        else 1) \<and>
     map (global_chunk_index \<circ> metadata) chunks = map (\<lambda>i. 7 + int i) [0..<length chunks])"
proof -
  have h: "py_split (ustr ''hello world'') \<noteq> []"
    by (simp add: py_split_def ustr_def isspace_def)
  show ?thesis
    using h chunk_page_text_count_400_50 [OF h, of "\<lambda>k. []" "ustr ''other''" 1 7] by blast
qed

text \<open>
  C2. With an overlap that is not smaller than the window, on a page longer than the
  window, the loop of \<^verbatim>\<open>chunk_page_text\<close> never returns: three words, a window of two
  and an overlap of two.
\<close>

theorem chunk_page_text_overlap_2_window_2_diverges:
  "chunk_page_text uuids (ustr ''a b c'') ty pn 2 2 g = None"
  by (rule chunk_page_text_diverges) (simp_all add: py_split_def ustr_def isspace_def)

text \<open>
  C3. A page whose text is blank and whose only table has two empty cells has no
  alphanumeric character of its own, yet \<^verbatim>\<open>chunk_pdf\<close> with tables included returns one
  chunk for it: the heading that \<^verbatim>\<open>extract_page_content\<close> generates for the table is
  alphanumeric.
\<close>

theorem chunk_pdf_blank_table_page_emits_chunk:
  "\<not> list_ex ascii_isalnum (ustr ''  '') \<and>
   chunk_pdf (\<lambda>path. Inr [blank_table_page]) ascii_isalnum uuids (ustr ''a.pdf'') (ustr ''other'')
     400 50 True =
   Some (Inr [\<lparr>chunk_id = uuids 0,
                chunk_text = ustr ''### Table 1 (page 1) | | | | --- | --- |'',
                metadata = \<lparr>pdf_type = ustr ''other'', page_number = 1, local_chunk_index = 0,
                             global_chunk_index = 0\<rparr>\<rparr>])"
proof -
  have blank: "\<not> list_ex ascii_isalnum (ustr ''  '')"
    by (simp add: ascii_isalnum_def ustr_def)
  have alnum: "list_ex ascii_isalnum blank_table_rendered"
    by (simp add: blank_table_rendered_def ascii_isalnum_def ustr_def)
  have "chunk_pdf_pages ascii_isalnum uuids (ustr ''other'') 400 50 True [blank_table_page] 1 [] 0 =
      Some [\<lparr>chunk_id = uuids 0,
                chunk_text = ustr ''### Table 1 (page 1) | | | | --- | --- |'',
                metadata = \<lparr>pdf_type = ustr ''other'', page_number = 1, local_chunk_index = 0,
                             global_chunk_index = 0\<rparr>\<rparr>]"
    using alnum
    by (simp add: blank_table_content blank_table_page_chunk)
  with blank show ?thesis by (simp add: chunk_pdf_def)
qed

text \<open>
  C4. Whatever the order in which the page pool completes the submitted pages, the
  \<^verbatim>\<open>structured_data\<close> of \<^verbatim>\<open>process_single_pdf\<close> is the concatenation of the per-page item
  lists in ascending page-number order: the surviving pages are in strictly ascending page
  order, and the result lists are concatenated in that order.
\<close>

theorem process_single_pdf_page_order:
  assumes "classifier_pdf_type w classifier = Inr pdf_ty"
    and "map_of (PROMPT_MAP w) pdf_ty = Some prompt_template"
    and "pdfplumber_open w pdf_path = Inr pages"
    and "mset (as_completed (read_pages w pdf_ty pages 1)) = mset (read_pages w pdf_ty pages 1)"
  shows "sorted_wrt (<) (map pi_page_number (read_pages w pdf_ty pages 1)) \<and>
         (length (read_pages w pdf_ty pages 1) \<noteq> 1 \<longrightarrow>
            (\<exists>r. process_single_pdf w as_completed pdf_path classifier = Inr r)) \<and>
         (\<forall>r. process_single_pdf w as_completed pdf_path classifier = Inr r \<longrightarrow>
            structured_data r =
              concat (map (page_items w pdf_ty prompt_template) (read_pages w pdf_ty pages 1)))"
proof -
  define ptp where "ptp = read_pages w pdf_ty pages 1"
  have st: "sorted_wrt (<) (map pi_page_number ptp)"
    using read_pages_numbers [of w pdf_ty pages 1] by (simp add: ptp_def)
  consider (none) "ptp = []" | (one) p where "ptp = [p]" | (many) "ptp \<noteq> []" "length ptp \<noteq> 1"
    by (cases ptp rule: list.exhaust; cases "tl ptp"; auto)
  then have "(length ptp \<noteq> 1 \<longrightarrow>
            (\<exists>r. process_single_pdf w as_completed pdf_path classifier = Inr r)) \<and>
         (\<forall>r. process_single_pdf w as_completed pdf_path classifier = Inr r \<longrightarrow>
            structured_data r = concat (map (page_items w pdf_ty prompt_template) ptp))"
  proof cases
    case none
    then show ?thesis
      using assms(1,2,3) by (simp add: process_single_pdf_def ptp_def [symmetric])
  next
    case one
    then show ?thesis
      using assms(1,2,3)
      by (auto simp: process_single_pdf_def ptp_def [symmetric] flatten_single page_items_def
          split: sum.splits)
  next
    case many
    have "flatten_in_page_order (collect_futures w pdf_ty prompt_template (as_completed ptp) []) =
         concat (map (page_items w pdf_ty prompt_template) ptp)"
      unfolding ptp_def using assms(4) by (rule pool_flatten)
    then show ?thesis
      using assms(1,2,3) many
      by (simp add: process_single_pdf_def ptp_def [symmetric])
  qed
  with st show ?thesis by (simp add: ptp_def)
qed

theorem process_single_pdf_page_order_witness:
  "\<exists>r. process_single_pdf example_world rev (ustr ''two.pdf'') schedule_classifier = Inr r \<and>
       structured_data r =
         concat (map (page_items example_world (ustr ''project_schedule'') (ustr ''Extract the tasks.''))
           [\<lparr>pi_page_number = 1, pi_text = ustr ''Task A 5 days'', pi_tables_markdown = []\<rparr>,
            \<lparr>pi_page_number = 2, pi_text = ustr ''Task B 7 days'', pi_tables_markdown = []\<rparr>])"
proof -
  have o: "pdfplumber_open example_world (ustr ''two.pdf'') =
      Inr [\<lparr>extract_text = Some (ustr ''Task A 5 days''), extract_tables = Inr None\<rparr>,
           \<lparr>extract_text = Some (ustr ''Task B 7 days''), extract_tables = Inr None\<rparr>]"
    by (simp add: example_world_def ustr_def)
  have m: "mset (rev (read_pages example_world (ustr ''project_schedule'')
      [\<lparr>extract_text = Some (ustr ''Task A 5 days''), extract_tables = Inr None\<rparr>,
       \<lparr>extract_text = Some (ustr ''Task B 7 days''), extract_tables = Inr None\<rparr>] 1)) =
     mset (read_pages example_world (ustr ''project_schedule'')
      [\<lparr>extract_text = Some (ustr ''Task A 5 days''), extract_tables = Inr None\<rparr>,
       \<lparr>extract_text = Some (ustr ''Task B 7 days''), extract_tables = Inr None\<rparr>] 1)"
    by simp
  from process_single_pdf_page_order [where as_completed = rev and w = example_world
      and pdf_path = "ustr ''two.pdf''", OF example_classifier example_template o m]
  show ?thesis unfolding example_read_two by auto
qed

text \<open>
  C5. A document with exactly one surviving page, whose LLM call raises an error that is
  not retried: \<^verbatim>\<open>process_single_pdf\<close> raises that error instead of returning a result with
  no items.
\<close>

theorem process_single_pdf_single_page_error:
  "process_single_pdf example_world rev (ustr ''one.pdf'') schedule_classifier =
     Inl (External (ustr ''Error code: 401 - invalid api key''))"
proof (rule process_single_pdf_one_page_error)
  show "classifier_pdf_type example_world schedule_classifier = Inr (ustr ''project_schedule'')"
    by (rule example_classifier)
  show "map_of (PROMPT_MAP example_world) (ustr ''project_schedule'') =
      Some (ustr ''Extract the tasks.'')"
    by (rule example_template)
  show "pdfplumber_open example_world (ustr ''one.pdf'') =
      Inr [\<lparr>extract_text = Some (ustr ''Task A 5 days''), extract_tables = Inr None\<rparr>]"
    by (simp add: example_world_def)
  show "read_pages example_world (ustr ''project_schedule'')
     [\<lparr>extract_text = Some (ustr ''Task A 5 days''), extract_tables = Inr None\<rparr>] 1
   = [\<lparr>pi_page_number = 1, pi_text = ustr ''Task A 5 days'', pi_tables_markdown = []\<rparr>]"
    by (rule example_read_one)
  show "process_page_with_llm example_world (ustr ''project_schedule'') (ustr ''Extract the tasks.'')
      \<lparr>pi_page_number = 1, pi_text = ustr ''Task A 5 days'', pi_tables_markdown = []\<rparr> =
     Inl (External (ustr ''Error code: 401 - invalid api key''))"
    by (rule example_page_fails)
qed

text \<open>
  C6. When the first \<open>k\<close> calls of \<^verbatim>\<open>ask_llm\<close> fail with a transient error (a 429 or
  503 marker, or one of the phrases "rate limit" and "temporarily"), it has slept
  \<open>min (2 ^ i) 15\<close> seconds after the \<open>i\<close>-th of them; a following success is returned, a
  following error of any other kind is re-raised at once, with no further call; and when
  all \<open>max_retries\<close> attempts failed transiently it raises \<^verbatim>\<open>RuntimeError\<close>, which is not an
  error of the endpoint.
\<close>

theorem ask_llm_retry_policy:
  assumes "\<forall>i<k. \<exists>e. client prompt i = Inl e \<and> transient lower e"
    and "k \<le> nat max_retries"
  shows "(k = nat max_retries \<longrightarrow>
            ask_llm lower client prompt max_retries =
              \<lparr>outcome = Inl RuntimeError, sleeps = map (\<lambda>i. min (2 ^ i) 15) [0..<k], calls = k\<rparr>) \<and>
         (k < nat max_retries \<longrightarrow>
            (\<forall>output_text. client prompt k = Inr output_text \<longrightarrow>
               ask_llm lower client prompt max_retries =
                 \<lparr>outcome = Inr output_text, sleeps = map (\<lambda>i. min (2 ^ i) 15) [0..<k],
                  calls = k + 1\<rparr>) \<and>
            (\<forall>err. client prompt k = Inl err \<and> \<not> transient lower err \<longrightarrow>
               ask_llm lower client prompt max_retries =
                 \<lparr>outcome = Inl (External err), sleeps = map (\<lambda>i. min (2 ^ i) 15) [0..<k],
                  calls = k + 1\<rparr>)) \<and>
         (\<forall>err. RuntimeError \<noteq> External err)"
proof -
  note run = ask_llm_loop_retries [OF assms, folded ask_llm_def]
  have "[k..<nat max_retries] = k # [Suc k..<nat max_retries]" if "k < nat max_retries"
    using that by (simp add: upt_conv_Cons)
  then show ?thesis
    unfolding ask_llm_def ask_llm_loop_retries [OF assms] by auto
qed

theorem ask_llm_retry_policy_witness:
  "ask_llm ascii_lower (\<lambda>p i. Inl (ustr ''Error code: 429'')) (ustr ''hi'') 6 =
     \<lparr>outcome = Inl RuntimeError, sleeps = [1, 2, 4, 8, 15, 15], calls = 6\<rparr> \<and>
   ask_llm ascii_lower (\<lambda>p i. if i < 2 then Inl (ustr ''Rate limit reached'') else Inr (ustr ''[]''))
      (ustr ''hi'') 6 =
     \<lparr>outcome = Inr (ustr ''[]''), sleeps = [1, 2], calls = 3\<rparr> \<and>
   ask_llm ascii_lower (\<lambda>p i. if i < 1 then Inl (ustr ''503 Service Unavailable'') else Inl (ustr ''401 bad key''))
      (ustr ''hi'') 6 =
     \<lparr>outcome = Inl (External (ustr ''401 bad key'')), sleeps = [1], calls = 2\<rparr>"
proof -
  have t1: "transient ascii_lower (ustr ''Error code: 429'')"
    by (simp add: transient_def ustr_def)
  have t2: "transient ascii_lower (ustr ''Rate limit reached'')"
    by (simp add: transient_def ustr_def ascii_lower_def)
  have t3: "transient ascii_lower (ustr ''503 Service Unavailable'')"
    by (simp add: transient_def ustr_def)
  have t4: "\<not> transient ascii_lower (ustr ''401 bad key'')"
    by (simp add: transient_def ustr_def ascii_lower_def)
  have up: "[0..<6] = [0, 1, 2, 3, 4, 5]" "[0..<2] = [0, 1]" "[0..<1] = [0]"
    by (simp_all add: upt_conv_Cons)
  have a: "ask_llm ascii_lower (\<lambda>p i. Inl (ustr ''Error code: 429'')) (ustr ''hi'') 6 =
     \<lparr>outcome = Inl RuntimeError, sleeps = [1, 2, 4, 8, 15, 15], calls = 6\<rparr>"
    using ask_llm_retry_policy [of 6 "\<lambda>p i. Inl (ustr ''Error code: 429'')" "ustr ''hi''"
        ascii_lower 6] t1
    by (simp add: up)
  have b: "ask_llm ascii_lower (\<lambda>p i. if i < 2 then Inl (ustr ''Rate limit reached'') else Inr (ustr ''[]''))
      (ustr ''hi'') 6 =
     \<lparr>outcome = Inr (ustr ''[]''), sleeps = [1, 2], calls = 3\<rparr>"
    using ask_llm_retry_policy [of 2 "\<lambda>p i. if i < 2 then Inl (ustr ''Rate limit reached'') else Inr (ustr ''[]'')"
        "ustr ''hi''" ascii_lower 6] t2
    by (simp add: up)
  have c: "ask_llm ascii_lower (\<lambda>p i. if i < 1 then Inl (ustr ''503 Service Unavailable'') else Inl (ustr ''401 bad key''))
      (ustr ''hi'') 6 =
     \<lparr>outcome = Inl (External (ustr ''401 bad key'')), sleeps = [1], calls = 2\<rparr>"
    using ask_llm_retry_policy [of 1 "\<lambda>p i. if i < 1 then Inl (ustr ''503 Service Unavailable'') else Inl (ustr ''401 bad key'')"
        "ustr ''hi''" ascii_lower 6] t3 t4
    by (simp add: up)
  from a b c show ?thesis by blast
qed

text \<open>
  C7. The endpoint answers with a JSON object whose reason field contains the word json.
  \<^verbatim>\<open>detect_pdf_type\<close> returns the object with that word removed from the field, not the
  object the response parses to.
\<close>

theorem detect_pdf_type_removes_json_inside_values:
  \<open>classify_pdf tagged_world (ustr ''a.pdf'') =
     Inr (ustr ''{"pdf_type": "other", "reason": "json export"}'') \<and>
   json_loads tagged_world (ustr ''{"pdf_type": "other", "reason": "json export"}'') =
     Inr (JObj [(ustr ''pdf_type'', JStr (ustr ''other'')),
                (ustr ''reason'', JStr (ustr ''json export''))]) \<and>
   detect_pdf_type tagged_world (ustr ''a.pdf'') =
     Inr (JObj [(ustr ''pdf_type'', JStr (ustr ''other'')),
                (ustr ''reason'', JStr (ustr '' export''))])\<close>
proof -
  have a: \<open>json_loads tagged_world (ustr ''{"pdf_type": "other", "reason": "json export"}'') =
     Inr (JObj [(ustr ''pdf_type'', JStr (ustr ''other'')),
                (ustr ''reason'', JStr (ustr ''json export''))])\<close>
    by (simp add: tagged_world_def)
  have b: \<open>json_loads tagged_world (ustr ''{"pdf_type": "other", "reason": " export"}'') =
     Inr (JObj [(ustr ''pdf_type'', JStr (ustr ''other'')),
                (ustr ''reason'', JStr (ustr '' export''))])\<close>
    by (simp add: tagged_world_def ustr_def)
  have c: \<open>detect_pdf_type tagged_world (ustr ''a.pdf'') =
      json_loads tagged_world (ustr ''{"pdf_type": "other", "reason": " export"}'')\<close>
    by (simp only: detect_pdf_type_def tagged_classify tagged_cleaned Let_def sum.case)
  from a b c tagged_classify [of "ustr ''a.pdf''"] show ?thesis by simp
qed

text \<open>
  C8. \<^verbatim>\<open>safe_json_loads\<close> strips the code fence and a leading json tag and parses the
  result; when that fails it parses the substring from the first opening bracket to the last
  closing bracket; when that fails too, or there is no such substring, it returns the empty
  list (it has no error result). A caller that gets anything but a list returns no items
  for the page. The two examples of the specification: a fenced array, and an array followed
  by commentary.
\<close>

theorem safe_json_loads_permissive:
  \<open>safe_json_loads lower loads raw =
     (case loads (cleaned_response lower raw) of
        Inr v \<Rightarrow> v
      | Inl e \<Rightarrow>
          (case bracket_snippet (cleaned_response lower raw) of
             None \<Rightarrow> JArr []
           | Some t \<Rightarrow> (case loads t of Inr v \<Rightarrow> v | Inl e' \<Rightarrow> JArr []))) \<and>
   (outcome (ask_llm (str_lower w) (llm_client w) (build_prompt ty tmpl pinfo) 6) = Inr llm_raw \<and>
    (\<forall>xs. safe_json_loads (str_lower w) (json_loads w) llm_raw \<noteq> JArr xs) \<longrightarrow>
      process_page_with_llm w ty tmpl pinfo = Inr (pi_page_number pinfo, [])) \<and>
   cleaned_response ascii_lower (ustr ''```json'' @ [10] @ ustr ''[{"a":1}]'' @ [10] @ ustr ''```'')
     = ustr ''[{"a":1}]'' @ [10] \<and>
   bracket_snippet (ustr ''[1, 2] hope this helps'') = Some (ustr ''[1, 2]'')\<close>
  using safe_json_loads_stages [of lower loads raw] process_page_non_list [of w ty tmpl pinfo llm_raw]
    cleaned_fenced_example snippet_trailing_example
  by blast

theorem safe_json_loads_permissive_witness:
  \<open>outcome (ask_llm (str_lower object_world) (llm_client object_world)
       (build_prompt (ustr ''project_schedule'') (ustr ''Extract the tasks.'')
          \<lparr>pi_page_number = 1, pi_text = ustr ''Task A 5 days'', pi_tables_markdown = []\<rparr>) 6)
     = Inr (ustr ''{"a": 1}'') \<and>
   (\<forall>xs. safe_json_loads (str_lower object_world) (json_loads object_world) (ustr ''{"a": 1}'')
       \<noteq> JArr xs) \<and>
   process_page_with_llm object_world (ustr ''project_schedule'') (ustr ''Extract the tasks.'')
       \<lparr>pi_page_number = 1, pi_text = ustr ''Task A 5 days'', pi_tables_markdown = []\<rparr>
     = Inr (1, [])\<close>
proof -
  let ?p = "\<lparr>pi_page_number = 1, pi_text = ustr ''Task A 5 days'', pi_tables_markdown = []\<rparr>"
  have a: \<open>outcome (ask_llm (str_lower object_world) (llm_client object_world)
       (build_prompt (ustr ''project_schedule'') (ustr ''Extract the tasks.'') ?p) 6)
     = Inr (ustr ''{"a": 1}'')\<close>
    by (rule object_world_raw)
  have b: \<open>\<forall>xs. safe_json_loads (str_lower object_world) (json_loads object_world) (ustr ''{"a": 1}'')
       \<noteq> JArr xs\<close>
    by (simp add: object_world_parse)
  from safe_json_loads_permissive [where w = object_world and ty = "ustr ''project_schedule''"
      and tmpl = "ustr ''Extract the tasks.''" and pinfo = ?p and llm_raw = \<open>ustr ''{"a": 1}''\<close>]
    a b
  show ?thesis by simp
qed

text \<open>
  C9. With 65 chunks that all have a text, \<^verbatim>\<open>store_chunks_in_chroma_with_doc_id\<close> makes
  one embedding call, on all 65 texts.
\<close>

theorem store_with_doc_id_embeds_65_texts_in_one_call:
  "map length (embed_calls
     (store_chunks_in_chroma_with_doc_id uuids embed_fn (replicate 65 sample_chunk) document_id))
   = [65]"
proof -
  have "py_strip (ustr ''some text'') \<noteq> []"
    by (simp add: py_strip_def ustr_def isspace_def)
  then have "\<forall>c \<in> set (replicate 65 sample_chunk). \<exists>t. rc_text c = Some t \<and> py_strip t \<noteq> []"
    by (simp add: sample_chunk_def)
  moreover have "replicate 65 sample_chunk \<noteq> []" by simp
  ultimately show ?thesis by (simp add: single_embed_call)
qed




end
